theory Spec2Isabelle
  imports Complex_Main "HOL-Library.AList" "HOL-Library.Sublist"
begin

section \<open>Data model\<close>

text \<open>
  The Python values that can reach the scorer as a raw answer are the values
  \<^verbatim>\<open>json.load\<close> produces: \<^verbatim>\<open>None\<close>, booleans, integers, floats
  (including the non-finite ones: \<^verbatim>\<open>1e999\<close> is read as \<^verbatim>\<open>inf\<close>), strings,
  lists and dictionaries.

  A Python string is modelled as a \<^typ>\<open>string\<close> whose characters are the code
  points below 256. Scores and weights are Python floats, that is IEEE 754
  double-precision numbers: a finite one is modelled by the real number it
  denotes, and the arithmetic of the scorer rounds as the machine does (section
  Floats below).
\<close>

datatype pyfloat = Finite real | NaN | Infinity bool

datatype answer =
    PyNone
  | PyBool bool
  | PyInt int
  | PyFloat pyfloat
  | PyStr string
  | PyList "answer list"
  | PyDict "(string \<times> answer) list"

text \<open>
  The exceptions that can leave the modelled functions. \<open>UnknownQuestionType\<close>
  and \<open>UnknownSector\<close> are the two \<^verbatim>\<open>ValueError\<close>s the repository raises
  itself, told apart by their message:
  \<^verbatim>\<open>ValueError(f"Type de question inconnu: {question.type}")\<close> and
  \<^verbatim>\<open>ValueError(f"Secteur inconnu: {sector_id}")\<close>.

  \<open>NonFinite\<close> is not an exception. It marks a run in which a float operation
  overflowed, which takes an exact intermediate result of magnitude about
  \<^verbatim>\<open>1.8e308\<close> or more: Python goes on with \<^verbatim>\<open>inf\<close> (and \<^verbatim>\<open>nan\<close> later),
  values that the scores of this model, finite doubles, do not represent. Such
  a run is outside the model, and every statement below about a result \<open>Inr\<close>
  is about a run in which no operation overflowed.
\<close>

datatype error =
    TypeError
  | ValueError
  | OverflowError
  | ZeroDivisionError
  | UnknownQuestionType string
  | UnknownSector string
  | NonFinite

text \<open>
  The dataclasses \<^verbatim>\<open>Question\<close> and \<^verbatim>\<open>Domain\<close> of
  \<^verbatim>\<open>diagnostic_model.py\<close>. The fields \<^verbatim>\<open>id\<close>, \<^verbatim>\<open>type\<close> and \<^verbatim>\<open>text\<close> carry
  a suffix, since the plain names are taken in Isabelle.
\<close>

record question =
  id_q :: string
  type_q :: string
  text_q :: string
  weight :: real

record domain =
  id_d :: string
  label :: string
  description :: string
  questions :: "question list"

text \<open>
  A Python dictionary is an association list in insertion order, with distinct
  keys. \<^verbatim>\<open>d.get(k, default)\<close> and \<^verbatim>\<open>d[k] = v\<close> are \<open>map_of\<close> and
  \<^const>\<open>AList.update\<close> (which overwrites in place or appends at the end, as
  Python does).
\<close>

type_synonym 'v dict = "(string \<times> 'v) list"

definition get_answer :: "answer dict \<Rightarrow> string \<Rightarrow> answer" where
  "get_answer answers k = (case map_of answers k of None \<Rightarrow> PyNone | Some v \<Rightarrow> v)"

definition get_answers :: "answer dict dict \<Rightarrow> string \<Rightarrow> answer dict" where
  "get_answers all_answers k = (case map_of all_answers k of None \<Rightarrow> [] | Some d \<Rightarrow> d)"

section \<open>Python built-ins used by the scorer\<close>

subsection \<open>Strings\<close>

text \<open>\<^verbatim>\<open>str.isspace\<close> on the code points below 256, as \<^verbatim>\<open>str.strip()\<close> uses it.\<close>

definition isspace :: "char \<Rightarrow> bool" where
  "isspace c = (of_char c \<in> set [9, 10, 11, 12, 13, 28, 29, 30, 31, 32, 133, 160 :: nat])"

definition strip :: "string \<Rightarrow> string" where
  "strip s = rev (dropWhile isspace (rev (dropWhile isspace s)))"

text \<open>\<^verbatim>\<open>str.lower\<close> on the code points below 256: A to Z, and the capital
  letters 192 to 222 of Latin-1 except the multiplication sign 215.\<close>

definition lower_char :: "char \<Rightarrow> char" where
  "lower_char c =
     (let n = (of_char c :: nat)
      in if (65 \<le> n \<and> n \<le> 90) \<or> (192 \<le> n \<and> n \<le> 222 \<and> n \<noteq> 215)
         then char_of (n + 32) else c)"

definition lower :: "string \<Rightarrow> string" where
  "lower s = map lower_char s"

subsection \<open>\<^verbatim>\<open>int(x)\<close>\<close>

text \<open>
  \<^verbatim>\<open>int\<close> of a string: surrounding whitespace is dropped (the separators 28 to
  31 are not whitespace here, unlike in \<^verbatim>\<open>str.strip\<close>), then an optional sign,
  then decimal digits with single underscores allowed between digits. More than
  4300 digits is a \<^verbatim>\<open>ValueError\<close> (the default \<^verbatim>\<open>sys.int_max_str_digits\<close>).
\<close>

definition int_space :: "char \<Rightarrow> bool" where
  "int_space c = (of_char c \<in> set [9, 10, 11, 12, 13, 32, 133, 160 :: nat])"

definition is_digit :: "char \<Rightarrow> bool" where
  "is_digit c = (48 \<le> (of_char c :: nat) \<and> (of_char c :: nat) \<le> 57)"

definition digit_val :: "char \<Rightarrow> int" where
  "digit_val c = int (of_char c) - 48"

fun parse_digits :: "string \<Rightarrow> int \<Rightarrow> int option" where
  "parse_digits [] acc = Some acc"
| "parse_digits [c] acc = (if is_digit c then Some (10 * acc + digit_val c) else None)"
| "parse_digits (c # d # ds) acc =
     (if is_digit c then parse_digits (d # ds) (10 * acc + digit_val c)
      else if c = CHR ''_'' \<and> is_digit d then parse_digits ds (10 * acc + digit_val d)
      else None)"

definition parse_decimal :: "string \<Rightarrow> int option" where
  "parse_decimal s =
     (case s of
        [] \<Rightarrow> None
      | c # cs \<Rightarrow>
          if \<not> is_digit c then None
          else if 4300 < length (filter is_digit s) then None
          else parse_digits cs (digit_val c))"

definition int_of_str :: "string \<Rightarrow> int option" where
  "int_of_str s =
     (case rev (dropWhile int_space (rev (dropWhile int_space s))) of
        [] \<Rightarrow> None
      | c # cs \<Rightarrow>
          if c = CHR ''-'' then map_option uminus (parse_decimal cs)
          else if c = CHR ''+'' then parse_decimal cs
          else parse_decimal (c # cs))"

text \<open>\<^verbatim>\<open>int\<close> of a finite float truncates towards zero.\<close>

definition trunc :: "real \<Rightarrow> int" where
  "trunc x = (if 0 \<le> x then \<lfloor>x\<rfloor> else \<lceil>x\<rceil>)"

fun py_int :: "answer \<Rightarrow> error + int" where
  "py_int PyNone = Inl TypeError"
| "py_int (PyBool b) = Inr (if b then 1 else 0)"
| "py_int (PyInt n) = Inr n"
| "py_int (PyFloat (Finite x)) = Inr (trunc x)"
| "py_int (PyFloat NaN) = Inl ValueError"
| "py_int (PyFloat (Infinity _)) = Inl OverflowError"
| "py_int (PyStr s) = (case int_of_str s of None \<Rightarrow> Inl ValueError | Some n \<Rightarrow> Inr n)"
| "py_int (PyList _) = Inl TypeError"
| "py_int (PyDict _) = Inl TypeError"

subsection \<open>\<^verbatim>\<open>bool(x)\<close>\<close>

fun py_bool :: "answer \<Rightarrow> bool" where
  "py_bool PyNone = False"
| "py_bool (PyBool b) = b"
| "py_bool (PyInt n) = (n \<noteq> 0)"
| "py_bool (PyFloat (Finite x)) = (x \<noteq> 0)"
| "py_bool (PyFloat NaN) = True"
| "py_bool (PyFloat (Infinity _)) = True"
| "py_bool (PyStr s) = (s \<noteq> [])"
| "py_bool (PyList xs) = (xs \<noteq> [])"
| "py_bool (PyDict kvs) = (kvs \<noteq> [])"

section \<open>Floats\<close>

text \<open>
  Python's \<^verbatim>\<open>+\<close>, \<^verbatim>\<open>*\<close> and \<^verbatim>\<open>/\<close> on floats are the IEEE 754 operations on
  doubles in the default rounding mode: the exact result, rounded to the nearest
  double, ties going to the double with an even significand.

  A double has 53 significant bits and an exponent between -1022 and 1023: the
  doubles of magnitude at least \<^verbatim>\<open>2^e\<close> and below \<^verbatim>\<open>2^(e+1)\<close> are the
  multiples of \<^verbatim>\<open>2^(e-52)\<close>, and those below \<^verbatim>\<open>2^-1022\<close> (the subnormal ones)
  are the multiples of \<^verbatim>\<open>2^-1074\<close>. A result that rounds to \<^verbatim>\<open>2^1024\<close> or
  beyond overflows. The sign of a zero is not modelled: the scorer never divides
  by a zero and compares floats with \<^verbatim>\<open>==\<close> and \<^verbatim>\<open>>=\<close> only, so it cannot
  observe it.
\<close>

text \<open>Rounding a real to the nearest integer, ties to the even one.\<close>

definition half_even :: "real \<Rightarrow> int" where
  "half_even x =
     (let n = \<lfloor>x\<rfloor>; r = x - of_int n
      in if r < 1 / 2 then n else if 1 / 2 < r then n + 1 else if even n then n else n + 1)"

text \<open>
  The exponent of a non-zero real \<open>x\<close>: the \<open>e\<close> such that \<open>\<bar>x\<bar>\<close> is at least
  \<^verbatim>\<open>2^e\<close> and below \<^verbatim>\<open>2^(e+1)\<close>, found by halving or doubling, and kept
  between -1022 (the subnormal numbers share the exponent -1022) and 1024 (from
  there on every result overflows).
\<close>

function expo_up :: "real \<Rightarrow> int \<Rightarrow> int" where
  "expo_up x e = (if x < 2 \<or> 1024 \<le> e then e else expo_up (x / 2) (e + 1))"
  by pat_completeness auto
termination
  by (relation "measure (\<lambda>(x, e). nat (1024 - e))") auto

function expo_down :: "real \<Rightarrow> int \<Rightarrow> int" where
  "expo_down x e = (if 1 \<le> x \<or> e \<le> - 1022 then e else expo_down (2 * x) (e - 1))"
  by pat_completeness auto
termination
  by (relation "measure (\<lambda>(x, e). nat (e + 1022))") auto

declare expo_up.simps [simp del]
declare expo_down.simps [simp del]

definition exponent :: "real \<Rightarrow> int" where
  "exponent x = (if 1 \<le> \<bar>x\<bar> then expo_up \<bar>x\<bar> 0 else expo_down \<bar>x\<bar> 0)"

definition pow2 :: "int \<Rightarrow> real" where
  "pow2 k = (if 0 \<le> k then 2 ^ nat k else 1 / 2 ^ nat (- k))"

text \<open>
  The double nearest to a real, or \<open>None\<close> when the result overflows: the real
  is rounded to a multiple of the spacing of the doubles around it.
\<close>

definition round_double :: "real \<Rightarrow> real option" where
  "round_double x =
     (if x = 0 then Some 0
      else let ulp = pow2 (exponent x - 52);
               r = of_int (half_even (x / ulp)) * ulp
           in if \<bar>r\<bar> < pow2 1024 then Some r else None)"

text \<open>
  The doubles: an integer of less than 54 bits times a power of two not below
  \<^verbatim>\<open>2^-1074\<close>, of magnitude below \<^verbatim>\<open>2^1024\<close>.
\<close>

definition is_double :: "real \<Rightarrow> bool" where
  "is_double x = (\<exists>m k. x = real_of_int m * pow2 k \<and> \<bar>m\<bar> < 2 ^ 53 \<and> - 1074 \<le> k
                    \<and> \<bar>x\<bar> < pow2 1024)"

definition fl :: "real \<Rightarrow> error + real" where
  "fl x = (case round_double x of None \<Rightarrow> Inl NonFinite | Some r \<Rightarrow> Inr r)"

text \<open>
  The three operations, on finite doubles. In \<^verbatim>\<open>x / y\<close> a zero divisor raises
  \<^verbatim>\<open>ZeroDivisionError\<close>. An integer operand (\<^verbatim>\<open>v\<close> in \<^verbatim>\<open>v / 5.0\<close>, \<^verbatim>\<open>count\<close>
  in \<^verbatim>\<open>sum_scores / count\<close>) is converted to a float first, exactly for the
  integers below \<^verbatim>\<open>2^53\<close>.
\<close>

definition fadd :: "real \<Rightarrow> real \<Rightarrow> error + real" where
  "fadd x y = fl (x + y)"

definition fmul :: "real \<Rightarrow> real \<Rightarrow> error + real" where
  "fmul x y = fl (x * y)"

definition fdiv :: "real \<Rightarrow> real \<Rightarrow> error + real" where
  "fdiv x y = (if y = 0 then Inl ZeroDivisionError else fl (x / y))"

section \<open>\<^verbatim>\<open>scoring.py\<close>\<close>

text \<open>
  \<^verbatim>\<open>score_question\<close>. The \<^verbatim>\<open>except (TypeError, ValueError)\<close> clause turns
  these two exceptions of \<^verbatim>\<open>int(answer)\<close> into the score 0.0; any other
  exception leaves the function. The score of a rating is
  \<^verbatim>\<open>(v / 5.0) * 100.0\<close>, a float division followed by a float multiplication.
\<close>

definition score_question :: "question \<Rightarrow> answer \<Rightarrow> error + real" where
  "score_question question answer =
     (if type_q question = ''stars'' then
        (case answer of
           PyNone \<Rightarrow> Inr 0
         | _ \<Rightarrow>
            (case py_int answer of
               Inl TypeError \<Rightarrow> Inr 0
             | Inl ValueError \<Rightarrow> Inr 0
             | Inl e \<Rightarrow> Inl e
             | Inr v \<Rightarrow>
                 (case fdiv (real_of_int (max 0 (min 5 v))) 5 of
                    Inl e \<Rightarrow> Inl e
                  | Inr x \<Rightarrow> fmul x 100)))
      else if type_q question = ''boolean'' then
        (let val = (case answer of
                      PyStr s \<Rightarrow> lower (strip s) \<in> set [''oui'', ''yes'', ''true'', ''1'']
                    | _ \<Rightarrow> py_bool answer)
         in Inr (if val then 100 else 0))
      else Inl (UnknownQuestionType (type_q question)))"

text \<open>
  \<^verbatim>\<open>score_domain\<close>: the loop over \<^verbatim>\<open>domain.questions\<close> with its two
  accumulators (\<^verbatim>\<open>total_score += qs * q.weight\<close> is a float multiplication
  followed by a float addition, \<^verbatim>\<open>total_weight += q.weight\<close> a float addition),
  then the float division guarded by \<^verbatim>\<open>total_weight == 0\<close>.
\<close>

fun score_domain_loop ::
  "question list \<Rightarrow> answer dict \<Rightarrow> real \<Rightarrow> real \<Rightarrow> error + (real \<times> real)" where
  "score_domain_loop [] answers total_weight total_score = Inr (total_weight, total_score)"
| "score_domain_loop (q # qs) answers total_weight total_score =
     (case score_question q (get_answer answers (id_q q)) of
        Inl e \<Rightarrow> Inl e
      | Inr s \<Rightarrow>
          (case fmul s (weight q) of
             Inl e \<Rightarrow> Inl e
           | Inr p \<Rightarrow>
               (case fadd total_score p of
                  Inl e \<Rightarrow> Inl e
                | Inr total_score' \<Rightarrow>
                    (case fadd total_weight (weight q) of
                       Inl e \<Rightarrow> Inl e
                     | Inr total_weight' \<Rightarrow>
                         score_domain_loop qs answers total_weight' total_score'))))"

definition score_domain :: "domain \<Rightarrow> answer dict \<Rightarrow> error + real" where
  "score_domain domain answers =
     (case score_domain_loop (questions domain) answers 0 0 of
        Inl e \<Rightarrow> Inl e
      | Inr (total_weight, total_score) \<Rightarrow>
          (if total_weight = 0 then Inr 0 else fdiv total_score total_weight))"

text \<open>
  \<^verbatim>\<open>score_global\<close>: the loop over \<^verbatim>\<open>domains.items()\<close> with the accumulators
  \<^verbatim>\<open>domain_scores\<close>, \<^verbatim>\<open>sum_scores\<close> (a float, \<^verbatim>\<open>sum_scores += s\<close> is a float
  addition) and \<^verbatim>\<open>count\<close> (an integer); \<^verbatim>\<open>if d_answers:\<close> is the test that
  the dictionary is not empty; \<^verbatim>\<open>sum_scores / count\<close> is a float division.
\<close>

fun score_global_loop ::
  "domain dict \<Rightarrow> answer dict dict \<Rightarrow> real dict \<Rightarrow> real \<Rightarrow> nat
     \<Rightarrow> error + (real dict \<times> real \<times> nat)" where
  "score_global_loop [] all_answers domain_scores sum_scores count =
     Inr (domain_scores, sum_scores, count)"
| "score_global_loop ((domain_id, domain) # rest) all_answers domain_scores sum_scores count =
     (let d_answers = get_answers all_answers domain_id
      in case score_domain domain d_answers of
           Inl e \<Rightarrow> Inl e
         | Inr s \<Rightarrow>
             (if d_answers \<noteq> []
              then (case fadd sum_scores s of
                      Inl e \<Rightarrow> Inl e
                    | Inr sum_scores' \<Rightarrow>
                        score_global_loop rest all_answers
                          (AList.update domain_id s domain_scores) sum_scores' (count + 1))
              else score_global_loop rest all_answers
                     (AList.update domain_id s domain_scores) sum_scores count))"

definition score_global :: "domain dict \<Rightarrow> answer dict dict \<Rightarrow> error + real dict" where
  "score_global domains all_answers =
     (case score_global_loop domains all_answers [] 0 0 of
        Inl e \<Rightarrow> Inl e
      | Inr (domain_scores, sum_scores, count) \<Rightarrow>
          (case (if count > 0 then fdiv sum_scores (real count) else Inr 0) of
             Inl e \<Rightarrow> Inl e
           | Inr global_score \<Rightarrow>
               Inr (AList.update ''__global__'' global_score domain_scores)))"

section \<open>\<^verbatim>\<open>questionnaire.py\<close>\<close>

definition STRONG_THRESHOLD :: real where
  "STRONG_THRESHOLD = 75"

definition IMPROVE_THRESHOLD :: real where
  "IMPROVE_THRESHOLD = 40"

text \<open>
  \<^verbatim>\<open>classify_domain\<close> returns one of three French words: \<^verbatim>\<open>fort\<close> (strong),
  \<^verbatim>\<open>am\<close>\<open>\<dots>\<close>\<^verbatim>\<open>liorer\<close> (to improve; its second letter is the code point 233)
  and \<^verbatim>\<open>critique\<close> (critical).
\<close>

definition classify_domain :: "real \<Rightarrow> string" where
  "classify_domain score =
     (if score \<ge> STRONG_THRESHOLD then ''fort''
      else if score \<ge> IMPROVE_THRESHOLD then ''am'' @ [CHR 0xE9] @ ''liorer''
      else ''critique'')"

text \<open>
  \<^verbatim>\<open>dict(items)\<close> inserts the pairs in order. \<^verbatim>\<open>sorted(items, key, reverse)\<close> is
  a stable sort; with \<^verbatim>\<open>reverse=True\<close> Python reverses the list, sorts it, and
  reverses the result, which keeps equal keys in their original order.
\<close>

definition py_dict :: "(string \<times> 'v) list \<Rightarrow> 'v dict" where
  "py_dict items = foldl (\<lambda>d (k, v). AList.update k v d) [] items"

definition py_sorted :: "('a \<Rightarrow> real) \<Rightarrow> bool \<Rightarrow> 'a list \<Rightarrow> 'a list" where
  "py_sorted key reverse xs =
     (if reverse then rev (sort_key key (rev xs)) else sort_key key xs)"

text \<open>
  The loop shared by \<^verbatim>\<open>extract_weak_points\<close> and \<^verbatim>\<open>extract_strong_points\<close>;
  \<open>keep\<close> is the test on \<^verbatim>\<open>classify_domain(s)\<close> that each of them makes.
\<close>

fun extract_loop ::
  "(string \<Rightarrow> bool) \<Rightarrow> domain dict \<Rightarrow> answer dict dict \<Rightarrow> real dict \<Rightarrow> error + real dict" where
  "extract_loop keep [] all_answers scores = Inr scores"
| "extract_loop keep ((did, domain) # rest) all_answers scores =
     (let d_ans = get_answers all_answers did
      in if d_ans = [] then extract_loop keep rest all_answers scores
         else case score_domain domain d_ans of
                Inl e \<Rightarrow> Inl e
              | Inr s \<Rightarrow>
                  (if keep (classify_domain s)
                   then extract_loop keep rest all_answers (AList.update did s scores)
                   else extract_loop keep rest all_answers scores))"

definition extract_weak_points :: "domain dict \<Rightarrow> answer dict dict \<Rightarrow> error + real dict" where
  "extract_weak_points domains all_answers =
     (case extract_loop (\<lambda>c. c \<noteq> ''fort'') domains all_answers [] of
        Inl e \<Rightarrow> Inl e
      | Inr scores \<Rightarrow> Inr (py_dict (py_sorted snd False scores)))"

definition extract_strong_points :: "domain dict \<Rightarrow> answer dict dict \<Rightarrow> error + real dict" where
  "extract_strong_points domains all_answers =
     (case extract_loop (\<lambda>c. c = ''fort'') domains all_answers [] of
        Inl e \<Rightarrow> Inl e
      | Inr scores \<Rightarrow> Inr (py_dict (py_sorted snd True scores)))"

text \<open>
  \<^verbatim>\<open>generate_empty_answers\<close>: the inner loop over \<^verbatim>\<open>domain.questions\<close> builds
  \<^verbatim>\<open>domain_answers\<close>, the outer loop over \<^verbatim>\<open>domains.items()\<close> builds
  \<^verbatim>\<open>result\<close>.
\<close>

definition empty_domain_answers :: "question list \<Rightarrow> answer dict" where
  "empty_domain_answers qs =
     foldl (\<lambda>domain_answers q. AList.update (id_q q) PyNone domain_answers) [] qs"

definition generate_empty_answers :: "domain dict \<Rightarrow> answer dict dict" where
  "generate_empty_answers domains =
     foldl (\<lambda>result (domain_id, domain).
              AList.update domain_id (empty_domain_answers (questions domain)) result)
       [] domains"

section \<open>\<^verbatim>\<open>diagnostic_model.py\<close>: the questionnaire builder\<close>

text \<open>
  \<^verbatim>\<open>build_domains_for_sector\<close> copies objects and then mutates the copies, so
  its model has an explicit store. An address is an index into the heap, a list
  of objects; allocation appends. The three kinds of mutable objects that the
  function touches are \<^verbatim>\<open>Question\<close> instances, Python lists of references to
  questions, and \<^verbatim>\<open>Domain\<close> instances, whose \<^verbatim>\<open>questions\<close> field refers to a
  list object. Strings and floats are immutable and are kept as values.
\<close>

type_synonym addr = nat

datatype obj =
    Question_obj question
  | List_obj "addr list"
  | Domain_obj string string string addr

type_synonym heap = "obj list"

text \<open>
  The dataclass \<^verbatim>\<open>SectorProfile\<close>; \<^verbatim>\<open>extra_questions\<close> maps a domain id to
  a list object. The function only reads the profile.
\<close>

record sector_profile =
  id_s :: string
  label_s :: string
  extra_questions :: "addr dict"

text \<open>
  The program state: the heap and the two module-level catalogues
  \<^verbatim>\<open>DOMAINS_COMMON\<close> (domain id to \<^verbatim>\<open>Domain\<close> object) and \<^verbatim>\<open>SECTORS\<close>.
\<close>

record state =
  heap :: heap
  DOMAINS_COMMON :: "addr dict"
  SECTORS :: "sector_profile dict"

definition deref :: "heap \<Rightarrow> addr \<Rightarrow> obj option" where
  "deref h a = (if a < length h then Some (h ! a) else None)"

text \<open>
  \<^verbatim>\<open>copy.deepcopy\<close>, on the three shapes it meets here. The result \<open>None\<close>
  stands for a heap that does not have the shape the dataclass annotations
  promise (a reference that is dangling or of the wrong kind); the loader never
  builds such a heap.

  The elements of a list are copied in order with the memo of \<^verbatim>\<open>deepcopy\<close>: a
  question object met a second time is not copied again, the list gets the
  same copy twice.
\<close>

fun deepcopy_questions ::
  "heap \<Rightarrow> (addr \<times> addr) list \<Rightarrow> addr list
     \<Rightarrow> (heap \<times> (addr \<times> addr) list \<times> addr list) option" where
  "deepcopy_questions h memo [] = Some (h, memo, [])"
| "deepcopy_questions h memo (a # as) =
     (case map_of memo a of
        Some y \<Rightarrow>
          (case deepcopy_questions h memo as of
             None \<Rightarrow> None
           | Some (h', memo', ys) \<Rightarrow> Some (h', memo', y # ys))
      | None \<Rightarrow>
          (case deref h a of
             Some (Question_obj q) \<Rightarrow>
               (case deepcopy_questions (h @ [Question_obj q]) ((a, length h) # memo) as of
                  None \<Rightarrow> None
                | Some (h', memo', ys) \<Rightarrow> Some (h', memo', length h # ys))
           | _ \<Rightarrow> None))"

definition deepcopy_list :: "heap \<Rightarrow> addr \<Rightarrow> (heap \<times> addr) option" where
  "deepcopy_list h la =
     (case deref h la of
        Some (List_obj as) \<Rightarrow>
          (case deepcopy_questions h [] as of
             None \<Rightarrow> None
           | Some (h', memo, ys) \<Rightarrow> Some (h' @ [List_obj ys], length h'))
      | _ \<Rightarrow> None)"

definition deepcopy_domain :: "heap \<Rightarrow> addr \<Rightarrow> (heap \<times> addr) option" where
  "deepcopy_domain h a =
     (case deref h a of
        Some (Domain_obj i l d la) \<Rightarrow>
          (case deepcopy_list h la of
             None \<Rightarrow> None
           | Some (h', la') \<Rightarrow> Some (h' @ [Domain_obj i l d la'], length h'))
      | _ \<Rightarrow> None)"

text \<open>
  The dictionary comprehension
  \<^verbatim>\<open>{k: copy.deepcopy(v) for k, v in DOMAINS_COMMON.items()}\<close>. The keys of a
  dictionary are distinct, so every key is added at the end.
\<close>

fun copy_domains :: "heap \<Rightarrow> addr dict \<Rightarrow> (heap \<times> addr dict) option" where
  "copy_domains h [] = Some (h, [])"
| "copy_domains h ((k, v) # rest) =
     (case deepcopy_domain h v of
        None \<Rightarrow> None
      | Some (h1, v') \<Rightarrow>
          (case copy_domains h1 rest of
             None \<Rightarrow> None
           | Some (h2, domains) \<Rightarrow> Some (h2, (k, v') # domains)))"

text \<open>
  The loop over \<^verbatim>\<open>sector.extra_questions.items()\<close>: an unknown domain id is
  skipped (\<^verbatim>\<open>continue\<close>); otherwise
  \<^verbatim>\<open>domains[domain_id].questions.extend(copy.deepcopy(extra_qs))\<close> copies the
  list of extra questions and overwrites the list object of the domain with its
  old elements followed by the elements of the copy.
\<close>

fun extend_domains :: "heap \<Rightarrow> addr dict \<Rightarrow> addr dict \<Rightarrow> heap option" where
  "extend_domains h domains [] = Some h"
| "extend_domains h domains ((domain_id, extra_qs) # rest) =
     (case map_of domains domain_id of
        None \<Rightarrow> extend_domains h domains rest
      | Some da \<Rightarrow>
          (case deepcopy_list h extra_qs of
             None \<Rightarrow> None
           | Some (h1, lc) \<Rightarrow>
               (case (deref h1 da, deref h1 lc) of
                  (Some (Domain_obj i l d la), Some (List_obj new)) \<Rightarrow>
                    (case deref h1 la of
                       Some (List_obj old) \<Rightarrow>
                         extend_domains (h1[la := List_obj (old @ new)]) domains rest
                     | _ \<Rightarrow> None)
                | _ \<Rightarrow> None)))"

text \<open>
  \<^verbatim>\<open>build_domains_for_sector\<close> returns the dictionary of the copies, or raises
  the unknown sector \<^verbatim>\<open>ValueError\<close>; in both cases the heap has grown by the
  copies made before the test of \<^verbatim>\<open>sector_id\<close>.
\<close>

definition build_domains_for_sector ::
  "state \<Rightarrow> string option \<Rightarrow> ((error + addr dict) \<times> state) option" where
  "build_domains_for_sector st sector_id =
     (case copy_domains (heap st) (DOMAINS_COMMON st) of
        None \<Rightarrow> None
      | Some (h1, domains) \<Rightarrow>
          (case sector_id of
             None \<Rightarrow> Some (Inr domains, st\<lparr>heap := h1\<rparr>)
           | Some sid \<Rightarrow>
               (case map_of (SECTORS st) sid of
                  None \<Rightarrow> Some (Inl (UnknownSector sid), st\<lparr>heap := h1\<rparr>)
                | Some sector \<Rightarrow>
                    (case extend_domains h1 domains (extra_questions sector) of
                       None \<Rightarrow> None
                     | Some h2 \<Rightarrow> Some (Inr domains, st\<lparr>heap := h2\<rparr>)))))"

subsection \<open>The values that the heap holds\<close>

text \<open>
  Reading an object graph back as a value: this is what the equality of the
  dataclasses compares, and what the scorer reads when it is handed a domain.
\<close>

definition read_question :: "heap \<Rightarrow> addr \<Rightarrow> question option" where
  "read_question h a = (case deref h a of Some (Question_obj q) \<Rightarrow> Some q | _ \<Rightarrow> None)"

definition read_list :: "heap \<Rightarrow> addr \<Rightarrow> addr list option" where
  "read_list h la = (case deref h la of Some (List_obj as) \<Rightarrow> Some as | _ \<Rightarrow> None)"

definition read_questions :: "heap \<Rightarrow> addr \<Rightarrow> question list option" where
  "read_questions h la =
     (case read_list h la of None \<Rightarrow> None | Some as \<Rightarrow> those (map (read_question h) as))"

definition list_addr :: "heap \<Rightarrow> addr \<Rightarrow> addr option" where
  "list_addr h a = (case deref h a of Some (Domain_obj i l d la) \<Rightarrow> Some la | _ \<Rightarrow> None)"

definition read_domain :: "heap \<Rightarrow> addr \<Rightarrow> domain option" where
  "read_domain h a =
     (case deref h a of
        Some (Domain_obj i l d la) \<Rightarrow>
          map_option (\<lambda>qs. \<lparr>id_d = i, label = l, description = d, questions = qs\<rparr>)
            (read_questions h la)
      | _ \<Rightarrow> None)"

definition read_domains :: "heap \<Rightarrow> addr dict \<Rightarrow> domain dict option" where
  "read_domains h ds = those (map (\<lambda>(k, a). map_option (Pair k) (read_domain h a)) ds)"

text \<open>The value of a result of \<^verbatim>\<open>build_domains_for_sector\<close>, exception or dictionary.\<close>

definition read_result :: "heap \<Rightarrow> error + addr dict \<Rightarrow> (error + domain dict) option" where
  "read_result h r =
     (case r of Inl e \<Rightarrow> Some (Inl e) | Inr ds \<Rightarrow> map_option Inr (read_domains h ds))"

text \<open>The value of the sector catalogue: every list of extra questions, read back.\<close>

definition read_sectors :: "state \<Rightarrow> (string \<times> (string \<times> question list option) list) list" where
  "read_sectors st =
     map (\<lambda>(sid, sector).
            (sid, map (\<lambda>(k, la). (k, read_questions (heap st) la)) (extra_questions sector)))
       (SECTORS st)"

text \<open>
  A state as \<^verbatim>\<open>load_questions\<close> leaves it: the keys of each dictionary are
  distinct, and every domain of the common catalogue and every list of extra
  questions can be read back.
\<close>

definition readable_lists :: "heap \<Rightarrow> addr dict \<Rightarrow> bool" where
  "readable_lists h es = list_all (\<lambda>la. read_questions h la \<noteq> None) (map snd es)"

definition wf_state :: "state \<Rightarrow> bool" where
  "wf_state st =
     (distinct (map fst (DOMAINS_COMMON st))
      \<and> read_domains (heap st) (DOMAINS_COMMON st) \<noteq> None
      \<and> list_all (\<lambda>sector. distinct (map fst (extra_questions sector))
                          \<and> readable_lists (heap st) (extra_questions sector))
           (map snd (SECTORS st)))"

text \<open>
  A domain object made after the heap had \<open>n\<close> objects: the \<^verbatim>\<open>Domain\<close>, its
  list and every question of the list lie at addresses from \<open>n\<close> on, so none of
  them is an object that existed before.
\<close>

definition fresh_domain :: "nat \<Rightarrow> heap \<Rightarrow> addr \<Rightarrow> bool" where
  "fresh_domain n h a =
     (n \<le> a \<and> (\<exists>i l d la as. deref h a = Some (Domain_obj i l d la) \<and> n \<le> la
                    \<and> read_list h la = Some as \<and> list_all (\<lambda>y. n \<le> y) as))"

section \<open>The specification's reading of the questionnaire builder\<close>

text \<open>
  Following the specification's words: for each pair of a domain id and extra
  questions of the sector, the extra questions are appended, in their order, to
  the question list of that domain of the common catalogue; a pair whose domain
  id is not in the catalogue changes nothing.
\<close>

definition sector_extra :: "heap \<Rightarrow> addr dict \<Rightarrow> string \<Rightarrow> question list" where
  "sector_extra h es k =
     (case map_of es k of
        None \<Rightarrow> []
      | Some la \<Rightarrow> (case read_questions h la of None \<Rightarrow> [] | Some qs \<Rightarrow> qs))"

definition with_extra :: "heap \<Rightarrow> addr dict \<Rightarrow> string \<times> domain \<Rightarrow> string \<times> domain" where
  "with_extra h es = (\<lambda>(k, v). (k, v\<lparr>questions := questions v @ sector_extra h es k\<rparr>))"

definition build_value :: "state \<Rightarrow> domain dict \<Rightarrow> string option \<Rightarrow> error + domain dict" where
  "build_value st common sector_id =
     (case sector_id of
        None \<Rightarrow> Inr common
      | Some sid \<Rightarrow>
          (case map_of (SECTORS st) sid of
             None \<Rightarrow> Inl (UnknownSector sid)
           | Some sector \<Rightarrow> Inr (map (with_extra (heap st) (extra_questions sector)) common)))"

section \<open>The specification's reading of a truthy string\<close>

text \<open>
  Following the specification's words: a string answer is truthy if,
  case-insensitively trimmed, it equals one of the affirmative tokens. Trimmed:
  the string is the token between two runs of whitespace; case-insensitively: the
  comparison is made on the lower-cased text.
\<close>

definition truthy_string :: "string \<Rightarrow> bool" where
  "truthy_string s =
     (\<exists>pre core post. s = pre @ core @ post \<and> list_all isspace pre \<and> list_all isspace post
        \<and> lower core \<in> {''oui'', ''yes'', ''true'', ''1''})"

section \<open>Notions used to state the properties\<close>

text \<open>
  The ids of the domains that \<^verbatim>\<open>score_global\<close> counts in its average: those
  whose answer sub-map is not empty, in the order of \<^verbatim>\<open>domains\<close>.
\<close>

definition included :: "domain dict \<Rightarrow> answer dict dict \<Rightarrow> string list" where
  "included domains all_answers =
     filter (\<lambda>k. get_answers all_answers k \<noteq> []) (map fst domains)"

text \<open>
  The domains that an extraction keeps, with their scores \<open>f\<close>, in the order of
  \<^verbatim>\<open>domains\<close>: a non-empty answer sub-map and a tier that passes \<open>keep\<close>.
\<close>

definition kept ::
  "(string \<Rightarrow> bool) \<Rightarrow> (string \<Rightarrow> real) \<Rightarrow> domain dict \<Rightarrow> answer dict dict \<Rightarrow> real dict" where
  "kept keep f domains all_answers =
     map (\<lambda>k. (k, f k))
       (filter (\<lambda>k. get_answers all_answers k \<noteq> [] \<and> keep (classify_domain (f k)))
          (map fst domains))"

text \<open>
  The specification's reading of the two averages, in the arithmetic of the
  program. \<open>float_sum acc xs\<close> adds the floats \<open>xs\<close> to \<open>acc\<close> from left to
  right, each addition rounded; \<open>float_dot acc sws\<close> adds the products score
  times weight of the pairs \<open>sws\<close>, each product and each addition rounded. The
  weighted mean of pairs (score, weight) is the rounded quotient of the two sums,
  and 0.0 when the weights sum to 0; the mean of a list of scores is the rounded
  quotient of their sum by their number, and 0.0 for the empty list.
\<close>

fun float_sum :: "real \<Rightarrow> real list \<Rightarrow> error + real" where
  "float_sum acc [] = Inr acc"
| "float_sum acc (x # xs) =
     (case fadd acc x of Inl e \<Rightarrow> Inl e | Inr acc' \<Rightarrow> float_sum acc' xs)"

fun float_dot :: "real \<Rightarrow> (real \<times> real) list \<Rightarrow> error + real" where
  "float_dot acc [] = Inr acc"
| "float_dot acc ((s, w) # sws) =
     (case fmul s w of
        Inl e \<Rightarrow> Inl e
      | Inr p \<Rightarrow> (case fadd acc p of Inl e \<Rightarrow> Inl e | Inr acc' \<Rightarrow> float_dot acc' sws))"

definition float_weighted_mean :: "(real \<times> real) list \<Rightarrow> error + real" where
  "float_weighted_mean sws =
     (case float_dot 0 sws of
        Inl e \<Rightarrow> Inl e
      | Inr total_score \<Rightarrow>
          (case float_sum 0 (map snd sws) of
             Inl e \<Rightarrow> Inl e
           | Inr total_weight \<Rightarrow>
               if total_weight = 0 then Inr 0 else fdiv total_score total_weight))"

definition float_mean :: "real list \<Rightarrow> error + real" where
  "float_mean xs =
     (if xs = [] then Inr 0
      else case float_sum 0 xs of
             Inl e \<Rightarrow> Inl e
           | Inr sum_scores \<Rightarrow> fdiv sum_scores (real (length xs)))"

text \<open>Three small catalogues with answers, used to instantiate the theorems.\<close>

definition example_question :: "string \<Rightarrow> string \<Rightarrow> question" where
  "example_question i t = \<lparr>id_q = i, type_q = t, text_q = '''', weight = 1\<rparr>"

definition example_domain :: "string \<Rightarrow> question list \<Rightarrow> domain" where
  "example_domain i qs = \<lparr>id_d = i, label = i, description = '''', questions = qs\<rparr>"



definition example_tiers :: "domain dict" where
  "example_tiers =
     [(''a'', example_domain ''a'' [example_question ''q1'' ''stars'', example_question ''q2'' ''stars'']),
      (''b'', example_domain ''b'' [example_question ''q1'' ''stars'', example_question ''q2'' ''stars'']),
      (''c'', example_domain ''c'' [example_question ''q1'' ''stars'', example_question ''q2'' ''stars''])]"

definition example_tier_answers :: "answer dict dict" where
  "example_tier_answers =
     [(''a'', [(''q1'', PyInt 4), (''q2'', PyInt 5)]),
      (''b'', [(''q1'', PyInt 2), (''q2'', PyInt 3)]),
      (''c'', [(''q1'', PyInt 1), (''q2'', PyInt 2)])]"

definition example_template :: "domain dict" where
  "example_template =
     [(''finance'', example_domain ''finance''
         [example_question ''f1'' ''stars'', example_question ''f2'' ''boolean'']),
      (''rh'', example_domain ''rh'' [example_question ''r1'' ''stars''])]"

definition example_template_answers :: "answer dict dict" where
  "example_template_answers =
     [(''finance'', [(''f1'', PyNone), (''f2'', PyNone)]), (''rh'', [(''r1'', PyInt 5)])]"

text \<open>
  Two catalogues on which rounding shows. The doubles nearest to 0.1 and 0.2
  (what Python reads from \<^verbatim>\<open>0.1\<close> and \<^verbatim>\<open>0.2\<close>) are the weights of the two
  questions of \<open>example_weighted\<close>; the three domains of \<open>example_thirds\<close> have
  one question of weight 1 each.
\<close>

definition double_0_1 :: real where
  "double_0_1 = 3602879701896397 / 36028797018963968"

definition double_0_2 :: real where
  "double_0_2 = 3602879701896397 / 18014398509481984"

definition example_weighted :: domain where
  "example_weighted =
     \<lparr>id_d = ''finance'', label = ''Finance'', description = '''',
      questions = [\<lparr>id_q = ''f1'', type_q = ''stars'', text_q = '''', weight = double_0_1\<rparr>,
                   \<lparr>id_q = ''f2'', type_q = ''stars'', text_q = '''', weight = double_0_2\<rparr>]\<rparr>"

definition example_weighted_answers :: "answer dict" where
  "example_weighted_answers = [(''f1'', PyInt 2), (''f2'', PyInt 2)]"



text \<open>
  The memo of one \<^verbatim>\<open>deepcopy\<close> call, while the heap had \<open>n\<close> objects when
  the call began: every entry maps a question to a copy of it made by the call.
\<close>

definition memo_ok :: "nat \<Rightarrow> heap \<Rightarrow> (addr \<times> addr) list \<Rightarrow> bool" where
  "memo_ok n h memo =
     (\<forall>(a, y)\<in>set memo. n \<le> y \<and> y < length h
         \<and> (\<exists>q. read_question h a = Some q \<and> read_question h y = Some q))"

text \<open>
  What the loop over the extensions has appended to domain \<open>k\<close> after the
  pairs \<open>es\<close>, and the effect of one pair and of all pairs on a domain value.
\<close>

definition extras :: "heap \<Rightarrow> addr dict \<Rightarrow> string \<Rightarrow> question list" where
  "extras h es k =
     concat (map (\<lambda>(k', la). if k' = k
                               then (case read_questions h la of None \<Rightarrow> [] | Some qs \<Rightarrow> qs)
                               else []) es)"

definition extend_value :: "string \<Rightarrow> question list \<Rightarrow> string \<times> domain \<Rightarrow> string \<times> domain" where
  "extend_value key eqs = (\<lambda>(k, v). (k, if k = key then v\<lparr>questions := questions v @ eqs\<rparr> else v))"

definition extend_all :: "heap \<Rightarrow> addr dict \<Rightarrow> string \<times> domain \<Rightarrow> string \<times> domain" where
  "extend_all h es = (\<lambda>(k, v). (k, v\<lparr>questions := questions v @ extras h es k\<rparr>))"

text \<open>
  A small loaded catalogue: the common domain \<^verbatim>\<open>si\<close> with one question, and
  the sector \<^verbatim>\<open>tech\<close>, which adds \<^verbatim>\<open>si_701\<close> to \<^verbatim>\<open>si\<close> and one question to
  a domain \<^verbatim>\<open>zz\<close> that the common catalogue does not have.
\<close>

definition example_state :: state where
  "example_state =
     \<lparr>heap = [Question_obj (example_question ''si_1'' ''stars''),
              List_obj [0],
              Domain_obj ''si'' ''si'' '''' 1,
              Question_obj (example_question ''si_701'' ''stars''),
              List_obj [3],
              Question_obj (example_question ''zz_1'' ''boolean''),
              List_obj [5]],
      DOMAINS_COMMON = [(''si'', 2)],
      SECTORS = [(''tech'', \<lparr>id_s = ''tech'', label_s = ''Tech'',
                            extra_questions = [(''si'', 4), (''zz'', 6)]\<rparr>)]\<rparr>"

section \<open>Properties of the scorer\<close>

subsection \<open>Floats\<close>

text \<open>The equations that evaluate a float operation on given numbers.\<close>

lemmas float_eval = fadd_def fmul_def fdiv_def fl_def round_double_def exponent_def pow2_def
  half_even_def Let_def expo_up.simps expo_down.simps

lemma pow2_pos: "0 < pow2 k"
  by (simp add: pow2_def)

lemma half_even_near: "\<bar>real_of_int (half_even x) - x\<bar> \<le> 1 / 2"
  unfolding half_even_def Let_def by (auto simp: abs_if) linarith+

lemma half_even_int: "half_even (real_of_int n) = n"
  by (simp add: half_even_def)

text \<open>
  The rounded value is a multiple of the spacing of the doubles around the exact
  value, at most half a spacing away from it.
\<close>

lemma round_double_near:
  assumes "round_double x = Some r"
  shows "\<bar>r - x\<bar> \<le> pow2 (exponent x - 52) / 2
       \<and> (\<exists>m. r = real_of_int m * pow2 (exponent x - 52))"
proof (cases "x = 0")
  case True
  with assms show ?thesis
    using pow2_pos[of "exponent x - 52"] by (auto simp: round_double_def intro: exI[of _ 0])
next
  case False
  let ?u = "pow2 (exponent x - 52)"
  have u: "0 < ?u" by (rule pow2_pos)
  from assms False have r: "r = real_of_int (half_even (x / ?u)) * ?u"
    by (auto simp: round_double_def Let_def split: if_splits)
  have "r - x = (real_of_int (half_even (x / ?u)) - x / ?u) * ?u"
    using u by (simp add: r algebra_simps)
  then have "\<bar>r - x\<bar> = \<bar>real_of_int (half_even (x / ?u)) - x / ?u\<bar> * ?u"
    using u by (simp add: abs_mult)
  also have "\<dots> \<le> (1 / 2) * ?u"
    using half_even_near[of "x / ?u"] u by (intro mult_right_mono) simp_all
  finally show ?thesis using r by auto
qed

text \<open>
  The exponent brackets the magnitude, a double is rounded to itself, what
  rounding returns is a double, and a magnitude of \<^verbatim>\<open>2^1024\<close> or more
  overflows.
\<close>

lemma pow2_powi: "pow2 k = 2 powi k"
  by (simp add: pow2_def power_int_def power_divide inverse_eq_divide)


lemma pow2_add: "pow2 (a + b) = pow2 a * pow2 b"
  by (simp add: pow2_powi power_int_add)

lemma pow2_mono: "a \<le> b \<Longrightarrow> pow2 a \<le> pow2 b"
  by (simp add: pow2_powi power_int_increasing)

lemma pow2_less: "a < b \<Longrightarrow> pow2 a < pow2 b"
  by (simp add: pow2_powi power_int_strict_increasing)

lemma pow2_less_iff: "pow2 a < pow2 b \<longleftrightarrow> a < b"
  using pow2_less[of a b] pow2_mono[of b a] by (cases "a < b") auto

lemma pow2_nat: "0 \<le> k \<Longrightarrow> pow2 k = real_of_int (2 ^ nat k)"
  by (simp add: pow2_def)

lemma expo_up_spec:
  assumes "1 \<le> x" and "e \<le> 1024"
  shows "e \<le> expo_up x e \<and> expo_up x e \<le> 1024
       \<and> pow2 (expo_up x e - e) \<le> x
       \<and> (expo_up x e < 1024 \<longrightarrow> x < pow2 (expo_up x e - e + 1))"
  using assms
proof (induction x e rule: expo_up.induct)
  case (1 x e)
  show ?case
  proof (cases "x < 2 \<or> 1024 \<le> e")
    case True
    then have r: "expo_up x e = e" by (simp add: expo_up.simps)
    from True 1(2,3) show ?thesis unfolding r by (auto simp: pow2_def)
  next
    case False
    then have r: "expo_up x e = expo_up (x / 2) (e + 1)"
      by (subst expo_up.simps) simp
    from False 1(2,3) have "1 \<le> x / 2" "e + 1 \<le> 1024" by auto
    from 1(1)[OF False this]
    have ih: "e + 1 \<le> expo_up x e" "expo_up x e \<le> 1024"
      "pow2 (expo_up x e - (e + 1)) \<le> x / 2"
      "expo_up x e < 1024 \<longrightarrow> x / 2 < pow2 (expo_up x e - (e + 1) + 1)"
      unfolding r by auto
    have a: "pow2 (expo_up x e - e) = 2 * pow2 (expo_up x e - (e + 1))"
      using pow2_add[of 1 "expo_up x e - (e + 1)"] by (simp add: pow2_def)
    have b: "pow2 (expo_up x e - e + 1) = 2 * pow2 (expo_up x e - (e + 1) + 1)"
      using pow2_add[of 1 "expo_up x e - (e + 1) + 1"] by (simp add: pow2_def algebra_simps)
    from ih show ?thesis unfolding a b by auto
  qed
qed

lemma expo_down_spec:
  assumes "0 < x" and "x < 1" and "- 1022 \<le> e"
  shows "- 1022 \<le> expo_down x e \<and> expo_down x e \<le> e
       \<and> x < pow2 (expo_down x e - e + 1)
       \<and> (- 1022 < expo_down x e \<longrightarrow> pow2 (expo_down x e - e) \<le> x)"
  using assms
proof (induction x e rule: expo_down.induct)
  case (1 x e)
  show ?case
  proof (cases "1 \<le> x \<or> e \<le> - 1022")
    case True
    then have r: "expo_down x e = e" by (simp add: expo_down.simps)
    from True 1(2,3,4) show ?thesis unfolding r by (auto simp: pow2_def)
  next
    case False
    then have r: "expo_down x e = expo_down (2 * x) (e - 1)"
      by (subst expo_down.simps) simp
    show ?thesis
    proof (cases "2 * x < 1")
      case True
      from False 1(2,3,4) True have "0 < 2 * x" "2 * x < 1" "- 1022 \<le> e - 1" by auto
      from 1(1)[OF False this]
      have ih: "- 1022 \<le> expo_down x e" "expo_down x e \<le> e - 1"
        "2 * x < pow2 (expo_down x e - (e - 1) + 1)"
        "- 1022 < expo_down x e \<longrightarrow> pow2 (expo_down x e - (e - 1)) \<le> 2 * x"
        unfolding r by auto
      have a: "pow2 (expo_down x e - (e - 1) + 1) = 2 * pow2 (expo_down x e - e + 1)"
        using pow2_add[of 1 "expo_down x e - e + 1"] by (simp add: pow2_def algebra_simps)
      have b: "pow2 (expo_down x e - (e - 1)) = 2 * pow2 (expo_down x e - e)"
        using pow2_add[of 1 "expo_down x e - e"] by (simp add: pow2_def algebra_simps)
      from ih show ?thesis unfolding a b by auto
    next
      case c: False
      then have r2: "expo_down x e = e - 1"
        unfolding r by (subst expo_down.simps) simp
      from c False 1(2,3,4) show ?thesis unfolding r2 by (auto simp: pow2_def)
    qed
  qed
qed

lemma exponent_spec:
  assumes "x \<noteq> 0"
  shows "- 1022 \<le> exponent x \<and> exponent x \<le> 1024
       \<and> (- 1022 < exponent x \<longrightarrow> pow2 (exponent x) \<le> \<bar>x\<bar>)
       \<and> (exponent x < 1024 \<longrightarrow> \<bar>x\<bar> < pow2 (exponent x + 1))"
proof (cases "1 \<le> \<bar>x\<bar>")
  case True
  then have e: "exponent x = expo_up \<bar>x\<bar> 0" by (simp add: exponent_def)
  from expo_up_spec[OF True, of 0] show ?thesis unfolding e by simp
next
  case False
  then have e: "exponent x = expo_down \<bar>x\<bar> 0" by (simp add: exponent_def)
  from assms False have "0 < \<bar>x\<bar>" "\<bar>x\<bar> < 1" by auto
  from expo_down_spec[OF this, of 0] show ?thesis unfolding e by simp
qed

lemma round_double_double:
  assumes "is_double x"
  shows "round_double x = Some x"
proof (cases "x = 0")
  case True
  then show ?thesis by (simp add: round_double_def)
next
  case False
  from assms obtain m k where x: "x = real_of_int m * pow2 k" and m: "\<bar>m\<bar> < 2 ^ 53"
    and k: "- 1074 \<le> k" and fin: "\<bar>x\<bar> < pow2 1024"
    unfolding is_double_def by blast
  let ?e = "exponent x"
  from exponent_spec[OF False] have e: "- 1022 \<le> ?e"
    and lo: "- 1022 < ?e \<longrightarrow> pow2 ?e \<le> \<bar>x\<bar>" by simp_all
  have ek: "?e - 52 \<le> k"
  proof (cases "- 1022 < ?e")
    case True
    with lo have "pow2 ?e \<le> \<bar>x\<bar>" by simp
    also have "\<bar>x\<bar> = real_of_int \<bar>m\<bar> * pow2 k"
      using pow2_pos[of k] by (simp add: x abs_mult)
    also have "\<dots> < 2 ^ 53 * pow2 k"
      using m pow2_pos[of k] by (intro mult_strict_right_mono) (simp_all flip: of_int_less_iff)
    also have "\<dots> = pow2 (53 + k)"
      by (simp add: pow2_add) (simp add: pow2_def)
    finally have "?e < 53 + k" by (simp only: pow2_less_iff)
    then show ?thesis by simp
  next
    case False
    with e k show ?thesis by simp
  qed
  define j where "j = k - (?e - 52)"
  define u where "u = pow2 (?e - 52)"
  have j: "0 \<le> j" using ek by (simp add: j_def)
  have u: "0 < u" unfolding u_def by (rule pow2_pos)
  have "pow2 k = pow2 j * u"
    using pow2_add[of j "?e - 52"] by (simp add: j_def u_def)
  then have "x = real_of_int (m * 2 ^ nat j) * u"
    by (simp add: x pow2_nat[OF j])
  then have q: "x / u = real_of_int (m * 2 ^ nat j)" and b: "real_of_int (m * 2 ^ nat j) * u = x"
    using u by simp_all
  have h: "half_even (x / u) = m * 2 ^ nat j"
    unfolding q by (rule half_even_int)
  from False fin show ?thesis
    unfolding round_double_def Let_def u_def[symmetric] h b by simp
qed

text \<open>A real of magnitude \<open>2^1024\<close> or more overflows.\<close>

lemma round_double_overflow:
  assumes "pow2 1024 \<le> \<bar>x\<bar>"
  shows "round_double x = None"
proof -
  have x0: "x \<noteq> 0" using assms pow2_pos[of 1024] by auto
  from exponent_spec[OF x0] have e: "exponent x \<le> 1024"
    and hi: "exponent x < 1024 \<longrightarrow> \<bar>x\<bar> < pow2 (exponent x + 1)" by simp_all
  have "exponent x = 1024"
  proof (rule ccontr)
    assume "exponent x \<noteq> 1024"
    with e have l: "exponent x < 1024" by simp
    with hi have "\<bar>x\<bar> < pow2 (exponent x + 1)" by simp
    also have "\<dots> \<le> pow2 1024" using l by (intro pow2_mono) simp
    finally show False using assms by simp
  qed
  then have u: "pow2 (exponent x - 52) = pow2 972" by simp
  let ?u = "pow2 972"
  have up: "0 < ?u" by (rule pow2_pos)
  have p: "pow2 1024 = 2 ^ 52 * ?u"
    using pow2_add[of 52 972] by (simp add: pow2_def)
  let ?h = "half_even (x / ?u)"
  have "2 ^ 52 \<le> \<bar>x\<bar> / ?u"
    using assms up unfolding p by (simp add: field_simps)
  then have big: "2 ^ 52 \<le> \<bar>x / ?u\<bar>" using up by simp
  have "\<bar>real_of_int ?h - x / ?u\<bar> \<le> 1 / 2" by (rule half_even_near)
  with big have "2 ^ 52 - 1 / 2 \<le> \<bar>real_of_int ?h\<bar>" by linarith
  then have "real_of_int (2 ^ 52 - 1) < real_of_int \<bar>?h\<bar>" by simp
  then have "2 ^ 52 - 1 < \<bar>?h\<bar>" by (simp only: of_int_less_iff)
  then have "2 ^ 52 \<le> \<bar>?h\<bar>" by simp
  then have "real_of_int (2 ^ 52) \<le> real_of_int \<bar>?h\<bar>" by (simp only: of_int_le_iff)
  then have "2 ^ 52 \<le> real_of_int \<bar>?h\<bar>" by simp
  then have "2 ^ 52 * ?u \<le> \<bar>real_of_int ?h\<bar> * ?u"
    using up by (intro mult_right_mono) simp_all
  then have "pow2 1024 \<le> \<bar>real_of_int ?h * ?u\<bar>"
    using up unfolding p by (simp add: abs_mult)
  with x0 show ?thesis
    by (simp add: round_double_def Let_def u)
qed

text \<open>What rounding returns is a double.\<close>

lemma round_double_is_double:
  assumes "round_double x = Some r"
  shows "is_double r"
proof (cases "x = 0")
  case True
  with assms have "r = 0" by (simp add: round_double_def)
  then show ?thesis
    unfolding is_double_def using pow2_pos[of 1024]
    by (intro exI[of _ 0] exI[of _ 0]) simp
next
  case False
  define u where "u = pow2 (exponent x - 52)"
  define h where "h = half_even (x / u)"
  have u: "0 < u" unfolding u_def by (rule pow2_pos)
  from assms False have r: "r = real_of_int h * u" and fin: "\<bar>r\<bar> < pow2 1024"
    by (auto simp: round_double_def Let_def u_def h_def split: if_splits)
  from exponent_spec[OF False] have e: "- 1022 \<le> exponent x"
    and hi: "exponent x < 1024 \<longrightarrow> \<bar>x\<bar> < pow2 (exponent x + 1)"
    and e': "exponent x \<le> 1024" and lo: "- 1022 < exponent x \<longrightarrow> pow2 (exponent x) \<le> \<bar>x\<bar>"
    by simp_all
  have "exponent x \<noteq> 1024"
  proof
    assume "exponent x = 1024"
    with lo have "pow2 1024 \<le> \<bar>x\<bar>" by simp
    from round_double_overflow[OF this] assms show False by simp
  qed
  with e' hi have "\<bar>x\<bar> < pow2 (exponent x + 1)" by simp
  also have "pow2 (exponent x + 1) = 2 ^ 53 * u"
    using pow2_add[of 53 "exponent x - 52"] pow2_nat[of 53] by (simp add: u_def add.commute)
  finally have "\<bar>x / u\<bar> < 2 ^ 53" using u by (simp add: field_simps)
  moreover have "\<bar>real_of_int h - x / u\<bar> \<le> 1 / 2"
    unfolding h_def by (rule half_even_near)
  ultimately have "\<bar>real_of_int h\<bar> < 2 ^ 53 + 1" by linarith
  then have "real_of_int \<bar>h\<bar> < real_of_int (2 ^ 53 + 1)" by simp
  then have "\<bar>h\<bar> < 2 ^ 53 + 1" by (simp only: of_int_less_iff)
  then have hb: "\<bar>h\<bar> \<le> 2 ^ 53" by simp
  show ?thesis
  proof (cases "\<bar>h\<bar> < 2 ^ 53")
    case True
    show ?thesis
      unfolding is_double_def
      using True e fin
      by (intro exI[of _ h] exI[of _ "exponent x - 52"]) (simp add: r u_def)
  next
    case False
    with hb have "\<bar>h\<bar> = 2 ^ 53" by simp
    then have "h = 9007199254740992 \<or> h = - 9007199254740992" by simp arith
    then have h2: "h = 2 * (h div 2)" and m: "\<bar>h div 2\<bar> < 2 ^ 53"
      by auto
    have "pow2 (exponent x - 51) = 2 * u"
      using pow2_add[of 1 "exponent x - 52"] pow2_nat[of 1] by (simp add: u_def)
    then have "real_of_int (h div 2) * pow2 (exponent x - 51) = real_of_int (2 * (h div 2)) * u"
      by simp
    also have "\<dots> = r" unfolding r using h2 by simp
    finally have "r = real_of_int (h div 2) * pow2 (exponent x - 51)" by simp
    then show ?thesis
      unfolding is_double_def using m e fin
      by (intro exI[of _ "h div 2"] exI[of _ "exponent x - 51"]) simp
  qed
qed

lemma ties_to_even:
  "fl 9007199254740993 = Inr 9007199254740992"
  "fl 9007199254740995 = Inr 9007199254740996"
  by (simp_all add: float_eval)

text \<open>The weights of \<open>example_weighted\<close> are doubles.\<close>

lemma example_weights_double: "is_double double_0_1" "is_double double_0_2"
  unfolding is_double_def double_0_1_def double_0_2_def
  by (rule exI[of _ 3602879701896397], rule exI[of _ "- 55"], simp add: pow2_def,
      rule exI[of _ 3602879701896397], rule exI[of _ "- 54"], simp add: pow2_def)

lemma fl_0: "fl 0 = Inr 0"
  by (simp add: fl_def round_double_def)

lemma fadd_0_0: "fadd 0 0 = Inr 0"
  by (simp add: fadd_def fl_0)

lemma fmul_0: "fmul 0 w = Inr 0"
  by (simp add: fmul_def fl_0)

lemma fdiv_0: "y \<noteq> 0 \<Longrightarrow> fdiv 0 y = Inr 0"
  by (simp add: fdiv_def fl_0)

text \<open>An addition or a multiplication never raises; a division raises on a zero
  divisor only.\<close>

lemma fl_error: "fl x = Inl e \<Longrightarrow> e = NonFinite"
  by (auto simp: fl_def split: option.splits)

lemma fadd_error: "fadd x y = Inl e \<Longrightarrow> e = NonFinite"
  unfolding fadd_def by (rule fl_error)

lemma fmul_error: "fmul x y = Inl e \<Longrightarrow> e = NonFinite"
  unfolding fmul_def by (rule fl_error)

lemma fdiv_error: "fdiv x y = Inl e \<Longrightarrow> y \<noteq> 0 \<Longrightarrow> e = NonFinite"
  unfolding fdiv_def by (auto dest: fl_error)

lemma float_sum_error: "float_sum acc xs = Inl e \<Longrightarrow> e = NonFinite"
  by (induction xs arbitrary: acc) (auto split: sum.splits dest: fadd_error)

lemma float_dot_error: "float_dot acc sws = Inl e \<Longrightarrow> e = NonFinite"
  by (induction acc sws rule: float_dot.induct)
    (auto split: sum.splits dest: fadd_error fmul_error)

lemma float_sum_Cons_Inr:
  "float_sum s (x # xs) = Inr S \<longleftrightarrow> (\<exists>s1. fadd s x = Inr s1 \<and> float_sum s1 xs = Inr S)"
  by (auto split: sum.splits)

lemma round_candidate_near:
  assumes "0 < u"
  shows "\<bar>real_of_int (half_even (x / u)) * u - x\<bar> \<le> u / 2"
proof -
  have "real_of_int (half_even (x / u)) * u - x = (real_of_int (half_even (x / u)) - x / u) * u"
    using assms by (simp add: algebra_simps)
  then have "\<bar>real_of_int (half_even (x / u)) * u - x\<bar>
               = \<bar>real_of_int (half_even (x / u)) - x / u\<bar> * u"
    using assms by (simp add: abs_mult)
  also have "\<dots> \<le> (1 / 2) * u"
    using half_even_near[of "x / u"] assms by (intro mult_right_mono) simp_all
  finally show ?thesis by simp
qed

text \<open>
  An operation overflows only when its exact result is, in magnitude, within
  half a spacing of \<^verbatim>\<open>2^1024\<close>, about \<^verbatim>\<open>1.8e308\<close>.
\<close>

lemma fl_finite:
  assumes "\<bar>x\<bar> < pow2 1024 - pow2 970"
  shows "\<exists>r. fl x = Inr r"
proof (cases "x = 0")
  case True
  then show ?thesis by (simp add: fl_0)
next
  case False
  define u where "u = pow2 (exponent x - 52)"
  have u: "0 < u" unfolding u_def by (rule pow2_pos)
  from exponent_spec[OF False] have e': "exponent x \<le> 1024"
    and lo: "- 1022 < exponent x \<longrightarrow> pow2 (exponent x) \<le> \<bar>x\<bar>"
    by simp_all
  have "exponent x \<noteq> 1024"
  proof
    assume "exponent x = 1024"
    with lo have "pow2 1024 \<le> \<bar>x\<bar>" by simp
    with assms pow2_pos[of 970] show False by simp
  qed
  with e' have "exponent x - 52 \<le> 971" by simp
  then have "u \<le> pow2 971" unfolding u_def by (rule pow2_mono)
  also have "pow2 971 = 2 * pow2 970"
    using pow2_add[of 1 970] pow2_nat[of 1] by simp
  finally have "u / 2 \<le> pow2 970" by simp
  with round_candidate_near[OF u, of x]
  have "\<bar>real_of_int (half_even (x / u)) * u - x\<bar> \<le> pow2 970" by simp
  with assms have "\<bar>real_of_int (half_even (x / u)) * u\<bar> < pow2 1024" by linarith
  with False show ?thesis
    by (simp add: fl_def round_double_def Let_def u_def)
qed

lemma is_double_nat: "n < 2 ^ 53 \<Longrightarrow> is_double (real n)"
proof -
  assume n: "n < 2 ^ 53"
  have "real n < 2 ^ 53" using n by (simp flip: of_nat_less_iff)
  also have "(2 :: real) ^ 53 \<le> pow2 1024"
    using pow2_mono[of 53 1024] pow2_nat[of 53] by simp
  finally have "\<bar>real n\<bar> < pow2 1024" by simp
  moreover have "\<bar>int n\<bar> < 2 ^ 53" using n by (simp flip: of_nat_less_iff)
  ultimately show ?thesis
    unfolding is_double_def
    by (intro exI[of _ "int n"] exI[of _ 0]) (simp add: pow2_def)
qed

lemma fl_whole:
  assumes "x \<in> \<nat>" and "x < 2 ^ 53"
  shows "fl x = Inr x"
proof -
  from assms(1) obtain n where x: "x = real n" by (rule Nats_cases)
  with assms(2) have "n < 2 ^ 53" by (simp flip: of_nat_less_iff)
  then show ?thesis
    by (simp add: x fl_def round_double_double is_double_nat)
qed

lemma sum_list_Nats: "\<forall>x\<in>set xs. x \<in> \<nat> \<Longrightarrow> sum_list xs \<in> \<nat> \<and> 0 \<le> sum_list (xs :: real list)"
  by (induction xs) (auto intro: Nats_add simp: Nats_altdef2)

lemma float_sum_whole:
  assumes "\<forall>x\<in>set xs. x \<in> \<nat>" and "acc \<in> \<nat>" and "acc + sum_list xs < 2 ^ 53"
  shows "float_sum acc xs = Inr (acc + sum_list xs)"
  using assms
proof (induction xs arbitrary: acc)
  case Nil
  then show ?case by simp
next
  case (Cons x xs)
  from Cons.prems(1) have x: "x \<in> \<nat>" and xs: "\<forall>x\<in>set xs. x \<in> \<nat>" by simp_all
  from sum_list_Nats[OF xs] have "0 \<le> sum_list xs" by simp
  with Cons.prems(3) have b: "acc + x < 2 ^ 53" by simp
  have n: "acc + x \<in> \<nat>" using Cons.prems(2) x by (rule Nats_add)
  have "fadd acc x = Inr (acc + x)"
    unfolding fadd_def by (rule fl_whole[OF n b])
  moreover have "float_sum (acc + x) xs = Inr (acc + x + sum_list xs)"
    using Cons.prems(3) by (intro Cons.IH xs n) (simp add: add.assoc)
  ultimately show ?case by (simp add: add.assoc)
qed

lemma float_dot_whole:
  assumes "\<forall>(s, w)\<in>set sws. s \<in> \<nat> \<and> w \<in> \<nat>" and "acc \<in> \<nat>"
    and "acc + (\<Sum>(s, w)\<leftarrow>sws. s * w) < 2 ^ 53"
  shows "float_dot acc sws = Inr (acc + (\<Sum>(s, w)\<leftarrow>sws. s * w))"
  using assms
proof (induction sws arbitrary: acc)
  case Nil
  then show ?case by simp
next
  case (Cons sw sws)
  obtain s w where sw: "sw = (s, w)" by (cases sw)
  from Cons.prems(1) sw have s: "s \<in> \<nat>" and w: "w \<in> \<nat>"
    and rest: "\<forall>(s, w)\<in>set sws. s \<in> \<nat> \<and> w \<in> \<nat>" by auto
  have p: "s * w \<in> \<nat>" using s w by (rule Nats_mult)
  have "\<forall>x\<in>set (map (\<lambda>(s, w). s * w) sws). x \<in> \<nat>"
    using rest by (auto intro: Nats_mult)
  from sum_list_Nats[OF this] have r0: "0 \<le> (\<Sum>(s, w)\<leftarrow>sws. s * w)" by simp
  have a0: "0 \<le> acc" and p0: "0 \<le> s * w"
    using Cons.prems(2) p by (auto simp: Nats_altdef2)
  from Cons.prems(3) r0 a0 p0 have pb: "s * w < 2 ^ 53" and b: "acc + s * w < 2 ^ 53"
    by (simp_all add: sw)
  have n: "acc + s * w \<in> \<nat>" using Cons.prems(2) p by (rule Nats_add)
  have m: "fmul s w = Inr (s * w)"
    unfolding fmul_def by (rule fl_whole[OF p pb])
  have a: "fadd acc (s * w) = Inr (acc + s * w)"
    unfolding fadd_def by (rule fl_whole[OF n b])
  have "float_dot (acc + s * w) sws = Inr (acc + s * w + (\<Sum>(s, w)\<leftarrow>sws. s * w))"
    using Cons.prems(3) by (intro Cons.IH rest n) (simp add: sw add.assoc)
  then show ?case by (simp add: sw m a add.assoc)
qed

text \<open>The doubles 0.2, 0.4, 0.6 and 0.8 are not fifths, yet a hundred times each
  of them rounds to the whole number.\<close>

lemma rating_scale:
  assumes "0 \<le> v" and "v \<le> 5"
  shows "(case fdiv (real_of_int v) 5 of Inl e \<Rightarrow> Inl e | Inr x \<Rightarrow> fmul x 100)
           = Inr (real_of_int v * 20)"
proof -
  from assms have "v = 0 \<or> v = 1 \<or> v = 2 \<or> v = 3 \<or> v = 4 \<or> v = 5" by arith
  then show ?thesis
    by (elim disjE) (simp_all add: float_eval)
qed

subsection \<open>Strings\<close>

lemma isspace_lower_char: "isspace c \<Longrightarrow> lower_char c = c"
  by (auto simp: isspace_def lower_char_def)

lemma isspace_lower_char_iff: "isspace (lower_char c) = isspace c"
  apply (cases "isspace c")
   apply (simp add: isspace_lower_char)
  apply (auto simp: isspace_def lower_char_def Let_def)
  done

lemma dropWhile_hd: "xs \<noteq> [] \<Longrightarrow> \<not> P (hd xs) \<Longrightarrow> dropWhile P xs = xs"
  by (cases xs) auto

lemma strip_sandwich:
  assumes "list_all isspace pre" "list_all isspace post"
    and "core \<noteq> []" "\<not> isspace (hd core)" "\<not> isspace (last core)"
  shows "strip (pre @ core @ post) = core"
proof -
  have "dropWhile isspace (pre @ core @ post) = dropWhile isspace (core @ post)"
    using assms(1) by (simp add: list_all_iff dropWhile_append2)
  also have "\<dots> = core @ post"
    using assms(3,4) by (intro dropWhile_hd) simp_all
  finally have a: "dropWhile isspace (pre @ core @ post) = core @ post" .
  have "dropWhile isspace (rev post @ rev core) = dropWhile isspace (rev core)"
    using assms(2) by (intro dropWhile_append2) (simp add: list_all_iff)
  also have "\<dots> = rev core"
    using assms(3,5) by (intro dropWhile_hd) (simp_all add: hd_rev)
  finally have b: "dropWhile isspace (rev post @ rev core) = rev core" .
  show ?thesis by (simp add: strip_def a b)
qed

lemma strip_decompose:
  "s = takeWhile isspace s @ strip s @ rev (takeWhile isspace (rev (dropWhile isspace s)))"
proof -
  let ?t = "dropWhile isspace s"
  have "rev ?t = takeWhile isspace (rev ?t) @ dropWhile isspace (rev ?t)" by simp
  then have "?t = rev (dropWhile isspace (rev ?t)) @ rev (takeWhile isspace (rev ?t))"
    by (metis rev_append rev_rev_ident)
  then have "takeWhile isspace s @ ?t = takeWhile isspace s @ strip s @ rev (takeWhile isspace (rev ?t))"
    by (simp add: strip_def)
  then show ?thesis by simp
qed

lemma token_ends:
  assumes "lower core \<in> {''oui'', ''yes'', ''true'', ''1''}"
  shows "core \<noteq> [] \<and> \<not> isspace (hd core) \<and> \<not> isspace (last core)"
proof -
  have ne: "core \<noteq> []" using assms by (auto simp: lower_def)
  have h: "\<not> isspace (hd (lower core)) \<and> \<not> isspace (last (lower core))"
    using assms by (auto simp: isspace_def)
  have "hd (lower core) = lower_char (hd core)" "last (lower core) = lower_char (last core)"
    using ne by (simp_all add: lower_def hd_map last_map)
  with h ne show ?thesis by (simp add: isspace_lower_char_iff)
qed

lemma truthy_string_strip:
  "truthy_string s = (lower (strip s) \<in> set [''oui'', ''yes'', ''true'', ''1''])"
proof
  assume "truthy_string s"
  then obtain pre core post where s: "s = pre @ core @ post"
    and sp: "list_all isspace pre" "list_all isspace post"
    and tok: "lower core \<in> {''oui'', ''yes'', ''true'', ''1''}"
    unfolding truthy_string_def by blast
  from token_ends[OF tok] sp have "strip s = core"
    unfolding s by (intro strip_sandwich) simp_all
  with tok show "lower (strip s) \<in> set [''oui'', ''yes'', ''true'', ''1'']" by simp
next
  assume a: "lower (strip s) \<in> set [''oui'', ''yes'', ''true'', ''1'']"
  have "list_all isspace (takeWhile isspace s)"
    "list_all isspace (rev (takeWhile isspace (rev (dropWhile isspace s))))"
    by (auto simp: list_all_iff dest: set_takeWhileD)
  with a strip_decompose[of s] show "truthy_string s"
    unfolding truthy_string_def by (intro exI[of _ "takeWhile isspace s"] exI[of _ "strip s"]
        exI[of _ "rev (takeWhile isspace (rev (dropWhile isspace s)))"]) simp
qed

subsection \<open>\<^verbatim>\<open>score_question\<close> on yes/no questions\<close>

lemma score_question_boolean_cases:
  assumes "type_q q = ''boolean''"
  shows "score_question q a =
           Inr (if (case a of PyStr s \<Rightarrow> truthy_string s | _ \<Rightarrow> py_bool a) then 100 else 0)"
  using assms by (cases a) (simp_all add: score_question_def truthy_string_strip)

lemma truthy_string_examples:
  "truthy_string '' OUI ''"
  "truthy_string ''Yes''"
  "truthy_string ([CHR 0x09] @ ''True'' @ [CHR 0x0A])"
  "truthy_string ''1''"
  "\<not> truthy_string ''non''"
  "\<not> truthy_string ''false''"
  "\<not> truthy_string ''0''"
  "\<not> truthy_string ''''"
  "\<not> truthy_string ''o u i''"
  unfolding truthy_string_strip by code_simp+

text \<open>
  Claim C5. For a question of type \<^verbatim>\<open>boolean\<close>, a string answer is truthy exactly
  when, trimmed and compared without regard to case, it is one of \<^verbatim>\<open>oui\<close>,
  \<^verbatim>\<open>yes\<close>, \<^verbatim>\<open>true\<close>, \<^verbatim>\<open>1\<close>; any other value is judged by Python's truth
  value: \<^verbatim>\<open>None\<close>, \<^verbatim>\<open>False\<close>, the integer 0, the float 0.0, the empty list
  and the empty dictionary are falsy, every other value is truthy (also the
  floats \<^verbatim>\<open>nan\<close> and \<^verbatim>\<open>inf\<close>); the score is 100 for truthy and 0 for falsy and
  nothing in between. A question whose type is neither \<^verbatim>\<open>stars\<close> nor
  \<^verbatim>\<open>boolean\<close> fails with the unknown question type error.
\<close>

theorem score_question_boolean:
  "(type_q q = ''boolean'' \<longrightarrow>
      score_question q (PyStr s) = Inr (if truthy_string s then 100 else 0)
    \<and> score_question q PyNone = Inr 0
    \<and> score_question q (PyBool b) = Inr (if b then 100 else 0)
    \<and> score_question q (PyInt n) = Inr (if n = 0 then 0 else 100)
    \<and> score_question q (PyFloat (Finite x)) = Inr (if x = 0 then 0 else 100)
    \<and> score_question q (PyFloat NaN) = Inr 100
    \<and> score_question q (PyFloat (Infinity sg)) = Inr 100
    \<and> score_question q (PyList xs) = Inr (if xs = [] then 0 else 100)
    \<and> score_question q (PyDict kvs) = Inr (if kvs = [] then 0 else 100)
    \<and> (score_question q a = Inr 0 \<or> score_question q a = Inr 100))
   \<and> (type_q q \<noteq> ''stars'' \<and> type_q q \<noteq> ''boolean'' \<longrightarrow>
        score_question q a = Inl (UnknownQuestionType (type_q q)))"
proof (intro conjI impI)
  assume b: "type_q q = ''boolean''"
  show "score_question q (PyStr s) = Inr (if truthy_string s then 100 else 0)"
    by (simp add: score_question_boolean_cases[OF b])
  show "score_question q PyNone = Inr 0"
    by (simp add: score_question_boolean_cases[OF b])
  show "score_question q (PyBool b) = Inr (if b then 100 else 0)"
    by (simp add: score_question_boolean_cases[OF b])
  show "score_question q (PyInt n) = Inr (if n = 0 then 0 else 100)"
    by (simp add: score_question_boolean_cases[OF b])
  show "score_question q (PyFloat (Finite x)) = Inr (if x = 0 then 0 else 100)"
    by (simp add: score_question_boolean_cases[OF b])
  show "score_question q (PyFloat NaN) = Inr 100"
    by (simp add: score_question_boolean_cases[OF b])
  show "score_question q (PyFloat (Infinity sg)) = Inr 100"
    by (simp add: score_question_boolean_cases[OF b])
  show "score_question q (PyList xs) = Inr (if xs = [] then 0 else 100)"
    by (simp add: score_question_boolean_cases[OF b])
  show "score_question q (PyDict kvs) = Inr (if kvs = [] then 0 else 100)"
    by (simp add: score_question_boolean_cases[OF b])
  show "score_question q a = Inr 0 \<or> score_question q a = Inr 100"
    by (simp add: score_question_boolean_cases[OF b])
next
  assume "type_q q \<noteq> ''stars'' \<and> type_q q \<noteq> ''boolean''"
  then show "score_question q a = Inl (UnknownQuestionType (type_q q))"
    by (simp add: score_question_def)
qed

theorem score_question_boolean_witness:
  "score_question (example_question ''f2'' ''boolean'') (PyStr '' OUI '') = Inr 100
   \<and> score_question (example_question ''f2'' ''boolean'') (PyStr ''Yes'') = Inr 100
   \<and> score_question (example_question ''f2'' ''boolean'')
        (PyStr ([CHR 0x09] @ ''True'' @ [CHR 0x0A])) = Inr 100
   \<and> score_question (example_question ''f2'' ''boolean'') (PyStr ''1'') = Inr 100
   \<and> score_question (example_question ''f2'' ''boolean'') (PyStr ''non'') = Inr 0
   \<and> score_question (example_question ''f2'' ''boolean'') (PyStr ''false'') = Inr 0
   \<and> score_question (example_question ''f2'' ''boolean'') (PyStr ''0'') = Inr 0
   \<and> score_question (example_question ''f2'' ''boolean'') (PyStr '''') = Inr 0
   \<and> score_question (example_question ''f2'' ''boolean'') (PyStr ''o u i'') = Inr 0
   \<and> score_question (example_question ''f2'' ''boolean'') PyNone = Inr 0
   \<and> score_question (example_question ''f2'' ''boolean'') (PyBool True) = Inr 100
   \<and> score_question (example_question ''f2'' ''boolean'') (PyBool False) = Inr 0
   \<and> score_question (example_question ''f2'' ''boolean'') (PyInt 3) = Inr 100
   \<and> score_question (example_question ''f2'' ''boolean'') (PyInt 0) = Inr 0
   \<and> score_question (example_question ''f2'' ''boolean'') (PyFloat (Finite (1 / 2))) = Inr 100
   \<and> score_question (example_question ''f2'' ''boolean'') (PyFloat (Finite 0)) = Inr 0
   \<and> score_question (example_question ''f2'' ''boolean'') (PyList [PyInt 0]) = Inr 100
   \<and> score_question (example_question ''f2'' ''boolean'') (PyList []) = Inr 0
   \<and> score_question (example_question ''f2'' ''boolean'') (PyDict []) = Inr 0
   \<and> score_question (example_question ''f2'' ''slider'') (PyInt 0)
        = Inl (UnknownQuestionType ''slider'')"
proof -
  let ?q = "example_question ''f2'' ''boolean''"
  have b: "type_q ?q = ''boolean''"
    and u: "type_q (example_question ''f2'' ''slider'') = ''slider''"
    by (simp_all add: example_question_def)
  note t = score_question_boolean[where q = ?q, unfolded b, simplified]
  note v = score_question_boolean[where q = "example_question ''f2'' ''slider''" and a = "PyInt 0",
      unfolded u, simplified]
  show ?thesis
    using t[where s = "'' OUI ''" and b = True and n = 3 and x = "1 / 2" and xs = "[PyInt 0]"
        and kvs = "[]"]
      t[where s = "''Yes''" and b = False and n = 0 and x = 0 and xs = "[]"]
      t[where s = "[CHR 0x09] @ ''True'' @ [CHR 0x0A]"] t[where s = "''1''"]
      t[where s = "''non''"] t[where s = "''false''"] t[where s = "''0''"] t[where s = "''''"]
      t[where s = "''o u i''"] v truthy_string_examples
    by simp
qed

subsection \<open>\<^verbatim>\<open>score_question\<close> on rating questions\<close>

lemma py_int_errors:
  "py_int a = Inl e \<Longrightarrow> e = TypeError \<or> e = ValueError \<or> e = OverflowError"
  by (cases a rule: py_int.cases) (auto split: option.splits)

text \<open>
  Whenever \<^verbatim>\<open>int(answer)\<close> does not raise \<^verbatim>\<open>OverflowError\<close>, the rating score is
  0 for an answer that has no integer value, and the clamped value mapped
  linearly to 0..100 otherwise: the two roundings of \<^verbatim>\<open>(v / 5.0) * 100.0\<close> give
  exactly 0, 20, 40, 60, 80 or 100.
\<close>

lemma score_question_rating:
  assumes "type_q q = ''stars''" and "py_int a \<noteq> Inl OverflowError"
  shows "score_question q a =
           Inr (case py_int a of Inl _ \<Rightarrow> 0 | Inr v \<Rightarrow> real_of_int (max 0 (min 5 v)) * 20)"
proof (cases "py_int a")
  case (Inl e)
  with assms(2) py_int_errors[OF Inl] have "e = TypeError \<or> e = ValueError" by auto
  with Inl assms(1) show ?thesis
    by (cases a) (auto simp: score_question_def)
next
  case (Inr v)
  have "(case fdiv (real_of_int (max 0 (min 5 v))) 5 of Inl e \<Rightarrow> Inl e | Inr x \<Rightarrow> fmul x 100)
          = Inr (real_of_int (max 0 (min 5 v)) * 20)"
    by (rule rating_scale) simp_all
  with Inr assms show ?thesis
    by (cases a) (simp_all add: score_question_def)
qed

lemma score_question_rating_exact:
  assumes "type_q q = ''stars''" and "0 \<le> v" and "v \<le> 5"
  shows "score_question q (PyInt v) = Inr (real_of_int v * 20)"
  using assms score_question_rating[OF assms(1), of "PyInt v"] by simp

lemma score_question_rating_mono:
  assumes "type_q q = ''stars''" and "max 0 (min 5 v) \<le> max 0 (min 5 w)"
  shows "\<exists>x y. score_question q (PyInt v) = Inr x \<and> score_question q (PyInt w) = Inr y \<and> x \<le> y"
  using assms score_question_rating[OF assms(1), of "PyInt v"]
    score_question_rating[OF assms(1), of "PyInt w"] by simp

text \<open>
  Claim C4 says that a rating question scores 0.0 on an absent or unparseable
  answer and otherwise clamps and rescales the integer value of the answer. The
  float infinity has no integer value, yet it is not scored 0.0:
  \<^verbatim>\<open>int(float("inf"))\<close> raises \<^verbatim>\<open>OverflowError\<close>, which the clause
  \<^verbatim>\<open>except (TypeError, ValueError)\<close> does not catch, so the exception leaves
  \<^verbatim>\<open>score_question\<close>.
\<close>

theorem score_question_rating_infinity:
  "score_question \<lparr>id_q = ''finance_1'', type_q = ''stars'', text_q = '''', weight = 1\<rparr>
     (PyFloat (Infinity True)) = Inl OverflowError"
  by (simp add: score_question_def)

subsection \<open>\<^verbatim>\<open>score_domain\<close>\<close>

text \<open>
  The loop keeps its two sums apart: the interleaved accumulation is the sum of
  the products and the sum of the weights, each taken from left to right.
\<close>

lemma score_domain_loop_float:
  assumes "\<forall>q\<in>set qs. score_question q (get_answer answers (id_q q)) = Inr (f q)"
  shows "score_domain_loop qs answers tw ts =
           (case float_dot ts (map (\<lambda>q. (f q, weight q)) qs) of
              Inl e \<Rightarrow> Inl NonFinite
            | Inr S \<Rightarrow>
                (case float_sum tw (map weight qs) of
                   Inl e \<Rightarrow> Inl NonFinite
                 | Inr W \<Rightarrow> Inr (W, S)))"
  using assms
proof (induction qs arbitrary: tw ts)
  case Nil
  then show ?case by simp
next
  case (Cons q qs)
  then have sq: "score_question q (get_answer answers (id_q q)) = Inr (f q)"
    and rest: "\<forall>q\<in>set qs. score_question q (get_answer answers (id_q q)) = Inr (f q)"
    by simp_all
  show ?case
  proof (cases "fmul (f q) (weight q)")
    case (Inl e)
    with fmul_error[OF Inl] show ?thesis by (simp add: sq)
  next
    case p: (Inr p)
    show ?thesis
    proof (cases "fadd ts p")
      case (Inl e)
      with fadd_error[OF Inl] show ?thesis by (simp add: sq p)
    next
      case ts': (Inr ts')
      show ?thesis
      proof (cases "fadd tw (weight q)")
        case (Inl e)
        with fadd_error[OF Inl] show ?thesis
          by (simp add: sq p ts' split: sum.splits)
      next
        case (Inr tw')
        then show ?thesis
          by (simp add: sq p ts' Cons.IH[OF rest] split: sum.splits)
      qed
    qed
  qed
qed

lemma score_domain_float:
  assumes "\<forall>q\<in>set (questions d). score_question q (get_answer answers (id_q q)) = Inr (f q)"
  shows "score_domain d answers =
           float_weighted_mean (map (\<lambda>q. (f q, weight q)) (questions d))"
proof -
  have m: "map snd (map (\<lambda>q. (f q, weight q)) (questions d)) = map weight (questions d)"
    by simp
  show ?thesis
    unfolding score_domain_def float_weighted_mean_def m score_domain_loop_float[OF assms]
    by (auto split: sum.splits dest: float_dot_error float_sum_error)
qed

text \<open>
  With whole scores and whole weights (the default weight is 1.0, and a rating
  scores a multiple of 20) the two sums are exact, and \<^verbatim>\<open>score_domain\<close> is the
  double nearest to the exact weighted mean.
\<close>

lemma score_domain_whole_weights:
  assumes "\<forall>q\<in>set (questions d). score_question q (get_answer answers (id_q q)) = Inr (f q)"
    and "\<forall>q\<in>set (questions d). f q \<in> \<nat> \<and> weight q \<in> \<nat>"
    and "(\<Sum>q\<leftarrow>questions d. f q * weight q) < 2 ^ 53"
    and "(\<Sum>q\<leftarrow>questions d. weight q) < 2 ^ 53"
  shows "score_domain d answers =
           (if (\<Sum>q\<leftarrow>questions d. weight q) = 0 then Inr 0
            else fl ((\<Sum>q\<leftarrow>questions d. f q * weight q) / (\<Sum>q\<leftarrow>questions d. weight q)))"
proof -
  let ?sws = "map (\<lambda>q. (f q, weight q)) (questions d)"
  have m1: "(\<Sum>(s, w)\<leftarrow>?sws. s * w) = (\<Sum>q\<leftarrow>questions d. f q * weight q)"
    by (simp add: comp_def)
  have m2: "map snd ?sws = map weight (questions d)" by simp
  have "float_dot 0 ?sws = Inr (0 + (\<Sum>(s, w)\<leftarrow>?sws. s * w))"
    using assms(2,3) by (intro float_dot_whole) (auto simp: comp_def)
  then have S: "float_dot 0 ?sws = Inr (\<Sum>q\<leftarrow>questions d. f q * weight q)"
    unfolding m1 by simp
  have "float_sum 0 (map weight (questions d)) = Inr (0 + (\<Sum>q\<leftarrow>questions d. weight q))"
    using assms(2,4) by (intro float_sum_whole) auto
  then have W: "float_sum 0 (map weight (questions d)) = Inr (\<Sum>q\<leftarrow>questions d. weight q)"
    by simp
  show ?thesis
    unfolding score_domain_float[OF assms(1)] float_weighted_mean_def m2 S W
    by (simp add: fdiv_def)
qed

lemma score_question_PyNone:
  "score_question q PyNone = Inr s \<Longrightarrow> s = 0"
  by (auto simp: score_question_def split: if_splits)

text \<open>
  Claim C3, amended. When every question of the domain gets a score \<open>f q\<close> (no
  exception), \<^verbatim>\<open>score_domain\<close> is the mean of the scores weighted by
  \<^verbatim>\<open>question.weight\<close> as double arithmetic computes it: the products score
  times weight and the weights are summed in the order of the questions, each
  product and each sum rounded to the nearest double, and the result is the
  rounded quotient of the two sums. Each answer is looked up by the question's
  id; a question without an entry in the answers scores 0 while its weight stays
  in the denominator; and the result is exactly 0.0 when the total weight is 0,
  as for an empty question list. When the scores and the weights are whole
  numbers whose sums stay below \<^verbatim>\<open>2^53\<close>, the two sums are exact and the result
  is the exact weighted mean rounded once, to the nearest double.
\<close>

theorem score_domain_float_mean:
  assumes "\<forall>q\<in>set (questions d). score_question q (get_answer answers (id_q q)) = Inr (f q)"
  shows "score_domain d answers =
           float_weighted_mean (map (\<lambda>q. (f q, weight q)) (questions d))
         \<and> (\<forall>q\<in>set (questions d). map_of answers (id_q q) = None \<longrightarrow> f q = 0)
         \<and> (float_sum 0 (map weight (questions d)) = Inr 0
              \<and> float_dot 0 (map (\<lambda>q. (f q, weight q)) (questions d)) = Inr S
            \<longrightarrow> score_domain d answers = Inr 0)
         \<and> (questions d = [] \<longrightarrow> score_domain d answers = Inr 0)
         \<and> (list_all (\<lambda>q. f q \<in> \<nat> \<and> weight q \<in> \<nat>) (questions d)
              \<and> (\<Sum>q\<leftarrow>questions d. f q * weight q) < 2 ^ 53
              \<and> (\<Sum>q\<leftarrow>questions d. weight q) < 2 ^ 53
            \<longrightarrow> score_domain d answers =
                  (if (\<Sum>q\<leftarrow>questions d. weight q) = 0 then Inr 0
                   else fl ((\<Sum>q\<leftarrow>questions d. f q * weight q)
                            / (\<Sum>q\<leftarrow>questions d. weight q))))"
proof (intro conjI ballI impI)
  show e: "score_domain d answers =
           float_weighted_mean (map (\<lambda>q. (f q, weight q)) (questions d))"
    by (rule score_domain_float[OF assms])
  show "score_domain d answers = Inr 0" if "questions d = []"
    unfolding e using that by (simp add: float_weighted_mean_def)
  show "score_domain d answers = Inr 0"
    if "float_sum 0 (map weight (questions d)) = Inr 0
          \<and> float_dot 0 (map (\<lambda>q. (f q, weight q)) (questions d)) = Inr S"
    unfolding e using that by (simp add: float_weighted_mean_def comp_def)
  show "score_domain d answers =
          (if (\<Sum>q\<leftarrow>questions d. weight q) = 0 then Inr 0
           else fl ((\<Sum>q\<leftarrow>questions d. f q * weight q) / (\<Sum>q\<leftarrow>questions d. weight q)))"
    if "list_all (\<lambda>q. f q \<in> \<nat> \<and> weight q \<in> \<nat>) (questions d)
          \<and> (\<Sum>q\<leftarrow>questions d. f q * weight q) < 2 ^ 53
          \<and> (\<Sum>q\<leftarrow>questions d. weight q) < 2 ^ 53"
    using that by (intro score_domain_whole_weights[OF assms]) (simp_all add: list_all_iff)
next
  fix q assume "q \<in> set (questions d)" and "map_of answers (id_q q) = None"
  with assms have "score_question q PyNone = Inr (f q)"
    by (auto simp: get_answer_def)
  then show "f q = 0" by (rule score_question_PyNone)
qed

theorem score_domain_float_mean_witness:
  "list_all (\<lambda>q. score_question q (get_answer [(''f1'', PyInt 4), (''f2'', PyBool True)] (id_q q))
        = Inr (if id_q q = ''f1'' then 80 else if id_q q = ''f2'' then 100 else 0))
     [\<lparr>id_q = ''f1'', type_q = ''stars'', text_q = '''', weight = 1\<rparr>,
      \<lparr>id_q = ''f2'', type_q = ''boolean'', text_q = '''', weight = 1\<rparr>,
      \<lparr>id_q = ''f3'', type_q = ''stars'', text_q = '''', weight = 2\<rparr>]
   \<and> float_weighted_mean [(80, 1), (100, 1), (0, 2)] = Inr 45
   \<and> fl ((80 * 1 + 100 * 1 + 0 * 2) / (1 + 1 + 2)) = Inr 45
   \<and> score_domain \<lparr>id_d = ''finance'', label = ''Finance'', description = '''',
        questions = [\<lparr>id_q = ''f1'', type_q = ''stars'', text_q = '''', weight = 1\<rparr>,
                     \<lparr>id_q = ''f2'', type_q = ''boolean'', text_q = '''', weight = 1\<rparr>,
                     \<lparr>id_q = ''f3'', type_q = ''stars'', text_q = '''', weight = 2\<rparr>]\<rparr>
        [(''f1'', PyInt 4), (''f2'', PyBool True)] = Inr 45"
proof -
  have h: "\<forall>q\<in>set (questions \<lparr>id_d = ''finance'', label = ''Finance'', description = '''',
        questions = [\<lparr>id_q = ''f1'', type_q = ''stars'', text_q = '''', weight = 1\<rparr>,
                     \<lparr>id_q = ''f2'', type_q = ''boolean'', text_q = '''', weight = 1\<rparr>,
                     \<lparr>id_q = ''f3'', type_q = ''stars'', text_q = '''', weight = 2\<rparr>]\<rparr>).
      score_question q (get_answer [(''f1'', PyInt 4), (''f2'', PyBool True)] (id_q q))
        = Inr (if id_q q = ''f1'' then 80 else if id_q q = ''f2'' then 100 else 0)"
    by (simp add: score_question_def get_answer_def float_eval)
  have m: "float_weighted_mean [(80, 1), (100, 1), (0, 2)] = Inr 45"
    by (simp add: float_weighted_mean_def float_eval)
  have r: "fl ((80 * 1 + 100 * 1 + 0 * 2) / (1 + 1 + 2)) = Inr 45"
    by (simp add: float_eval)
  show ?thesis
    using h m r score_domain_float_mean[OF h] by simp
qed

text \<open>
  Claim C3 as the specification states it, with the exact weighted mean, fails:
  two ratings of 2 (both scored 40.0) with the weights 0.1 and 0.2 give
  \<^verbatim>\<open>39.99999999999999\<close>, while the weighted mean of 40 and 40 is 40. The sum of
  the weights is rounded to \<^verbatim>\<open>0.30000000000000004\<close>, the sum of the products is
  12.0.
\<close>

theorem score_domain_exact_mean_counterexample:
  "list_all (\<lambda>q. score_question q (get_answer example_weighted_answers (id_q q)) = Inr 40)
     (questions example_weighted)
   \<and> score_domain example_weighted example_weighted_answers
       = Inr (5629499534213119 / 140737488355328)
   \<and> (\<Sum>q\<leftarrow>questions example_weighted. 40 * weight q)
       / (\<Sum>q\<leftarrow>questions example_weighted. weight q) = 40
   \<and> score_domain example_weighted example_weighted_answers
       \<noteq> Inr ((\<Sum>q\<leftarrow>questions example_weighted. 40 * weight q)
                / (\<Sum>q\<leftarrow>questions example_weighted. weight q))"
proof -
  have q: "list_all (\<lambda>q. score_question q (get_answer example_weighted_answers (id_q q)) = Inr 40)
     (questions example_weighted)"
    by (simp add: example_weighted_def example_weighted_answers_def get_answer_def
        score_question_rating_exact)
  have w: "fadd 0 double_0_1 = Inr double_0_1"
    "fadd double_0_1 double_0_2 = Inr (1351079888211149 / 4503599627370496)"
    by (simp_all add: double_0_1_def double_0_2_def float_eval)
  have p: "fmul 40 double_0_1 = Inr 4" "fmul 40 double_0_2 = Inr 8"
    "fadd 0 4 = Inr 4" "fadd 4 8 = Inr 12"
    by (simp_all add: double_0_1_def double_0_2_def float_eval)
  have d: "fdiv 12 (1351079888211149 / 4503599627370496)
             = Inr (5629499534213119 / 140737488355328)"
    by (simp add: float_eval)
  have s: "score_domain example_weighted example_weighted_answers
       = Inr (5629499534213119 / 140737488355328)"
    by (simp add: score_domain_def example_weighted_def example_weighted_answers_def
        get_answer_def score_question_rating_exact w p d)
  have e: "(\<Sum>q\<leftarrow>questions example_weighted. 40 * weight q)
       / (\<Sum>q\<leftarrow>questions example_weighted. weight q) = 40"
    by (simp add: example_weighted_def double_0_1_def double_0_2_def)
  show ?thesis
    unfolding e using q s by simp
qed

section \<open>Properties of the classifier\<close>


text \<open>
  Claim C7. \<^verbatim>\<open>classify_domain\<close> maps a score of at least 75 to \<^verbatim>\<open>fort\<close>
  (strong), a score from 40 up to but excluding 75 to the French word for
  "to improve", and a score below 40 to \<^verbatim>\<open>critique\<close> (critical).
\<close>

theorem classify_domain_thresholds:
  "(score \<ge> 75 \<longrightarrow> classify_domain score = ''fort'')
   \<and> (40 \<le> score \<and> score < 75 \<longrightarrow> classify_domain score = ''am'' @ [CHR 0xE9] @ ''liorer'')
   \<and> (score < 40 \<longrightarrow> classify_domain score = ''critique'')"
  by (simp add: classify_domain_def STRONG_THRESHOLD_def IMPROVE_THRESHOLD_def)

theorem classify_domain_thresholds_witness:
  "classify_domain 75 = ''fort'' \<and> classify_domain 40 = ''am'' @ [CHR 0xE9] @ ''liorer''
   \<and> classify_domain 39 = ''critique''"
  using classify_domain_thresholds[of 75] classify_domain_thresholds[of 40]
    classify_domain_thresholds[of 39]
  by simp

section \<open>Properties of \<^verbatim>\<open>score_global\<close>\<close>

lemma score_domain_loop_all_None:
  assumes "\<forall>k. get_answer answers k = PyNone"
    and "score_domain_loop qs answers tw 0 = Inr (tw', ts')"
  shows "ts' = 0"
  using assms(2)
proof (induction qs arbitrary: tw)
  case Nil
  then show ?case by simp
next
  case (Cons q qs)
  from Cons.prems obtain s where s: "score_question q PyNone = Inr s"
    using assms(1) by (auto split: sum.splits)
  then have s0: "score_question q PyNone = Inr 0"
    using score_question_PyNone by blast
  from Cons.prems obtain tw1 where "score_domain_loop qs answers tw1 0 = Inr (tw', ts')"
    using assms(1) by (auto simp: s0 fmul_0 fadd_0_0 split: sum.splits)
  then show ?case by (rule Cons.IH)
qed

lemma score_domain_all_None:
  assumes "\<forall>k. get_answer answers k = PyNone" and "score_domain d answers = Inr s"
  shows "s = 0"
proof (cases "score_domain_loop (questions d) answers 0 0")
  case (Inl e)
  with assms(2) show ?thesis by (simp add: score_domain_def)
next
  case (Inr p)
  obtain tw ts where p: "p = (tw, ts)" by (cases p)
  from score_domain_loop_all_None[OF assms(1) Inr[unfolded p]] have "ts = 0" .
  with assms(2) Inr p show ?thesis
    by (auto simp: score_domain_def fdiv_0 split: if_splits)
qed

lemma get_answer_all_None:
  assumes "\<forall>v\<in>snd ` set answers. v = PyNone"
  shows "get_answer answers k = PyNone"
proof (cases "map_of answers k")
  case None
  then show ?thesis by (simp add: get_answer_def)
next
  case (Some v)
  then have "(k, v) \<in> set answers" by (rule map_of_SomeD)
  with assms have "v = PyNone" by force
  with Some show ?thesis by (simp add: get_answer_def)
qed


lemma included_Cons:
  "included ((k, d) # rest) all_answers =
     (if get_answers all_answers k \<noteq> [] then k # included rest all_answers
      else included rest all_answers)"
  by (simp add: included_def)

text \<open>
  The loop of \<^verbatim>\<open>score_global\<close>: \<^verbatim>\<open>sum_scores\<close> becomes the float sum of the
  scores of the counted domains, in their order, and \<^verbatim>\<open>count\<close> their number.
\<close>

lemma score_global_loop_Inr:
  assumes "\<forall>(k, d)\<in>set domains. score_domain d (get_answers all_answers k) = Inr (f k)"
    and "float_sum s (map f (included domains all_answers)) = Inr S"
  shows "\<exists>ds'. score_global_loop domains all_answers ds s c =
            Inr (ds', S, c + length (included domains all_answers))
          \<and> map_of ds' = (\<lambda>k. if k \<in> fst ` set domains then Some (f k) else map_of ds k)
          \<and> fst ` set ds' = fst ` set ds \<union> fst ` set domains"
  using assms
proof (induction domains arbitrary: ds s c)
  case Nil
  then show ?case by (simp add: included_def)
next
  case (Cons kd rest)
  obtain k d where kd: "kd = (k, d)" by (cases kd)
  from Cons.prems(1) kd have sd: "score_domain d (get_answers all_answers k) = Inr (f k)"
    and rest: "\<forall>(k, d)\<in>set rest. score_domain d (get_answers all_answers k) = Inr (f k)"
    by auto
  have "\<exists>s1 c1. score_global_loop (kd # rest) all_answers ds s c =
                score_global_loop rest all_answers (AList.update k (f k) ds) s1 c1
          \<and> float_sum s1 (map f (included rest all_answers)) = Inr S
          \<and> c1 + length (included rest all_answers)
              = c + length (included (kd # rest) all_answers)"
  proof (cases "get_answers all_answers k \<noteq> []")
    case True
    with Cons.prems(2) have "float_sum s (f k # map f (included rest all_answers)) = Inr S"
      by (simp add: kd included_Cons del: float_sum.simps)
    then obtain s1 where a: "fadd s (f k) = Inr s1"
      and b: "float_sum s1 (map f (included rest all_answers)) = Inr S"
      unfolding float_sum_Cons_Inr by (elim exE conjE)
    show ?thesis
      using True a b
      by (intro exI[of _ s1] exI[of _ "c + 1"]) (simp add: kd sd included_Cons)
  next
    case False
    with sd have sd': "score_domain d [] = Inr (f k)" by simp
    from False Cons.prems(2) show ?thesis
      by (intro exI[of _ s] exI[of _ c]) (simp add: kd sd' included_Cons)
  qed
  then obtain s1 c1 where
    step: "score_global_loop (kd # rest) all_answers ds s c =
                score_global_loop rest all_answers (AList.update k (f k) ds) s1 c1"
    and fs: "float_sum s1 (map f (included rest all_answers)) = Inr S"
    and b: "c1 + length (included rest all_answers)
              = c + length (included (kd # rest) all_answers)"
    by (elim exE conjE)
  from Cons.IH[OF rest fs, of "AList.update k (f k) ds" c1]
  obtain ds' where r: "score_global_loop rest all_answers (AList.update k (f k) ds) s1 c1 =
       Inr (ds', S, c1 + length (included rest all_answers))"
    and m: "map_of ds' = (\<lambda>x. if x \<in> fst ` set rest then Some (f x)
                              else map_of (AList.update k (f k) ds) x)"
    and keys: "fst ` set ds' = fst ` set (AList.update k (f k) ds) \<union> fst ` set rest"
    by (elim exE conjE)
  have m': "map_of ds' = (\<lambda>x. if x \<in> fst ` set (kd # rest) then Some (f x) else map_of ds x)"
    unfolding m by (rule ext) (simp add: kd update_conv')
  have keys': "fst ` set ds' = fst ` set ds \<union> fst ` set (kd # rest)"
    unfolding keys by (simp add: kd dom_update)
  have r': "score_global_loop (kd # rest) all_answers ds s c =
       Inr (ds', S, c + length (included (kd # rest) all_answers))"
    unfolding step r b ..
  show ?case
    by (intro exI[of _ ds'] conjI r' m' keys')
qed

lemma float_mean_Inr:
  assumes "float_mean xs = Inr g"
  shows "(xs = [] \<and> g = 0)
       \<or> (xs \<noteq> [] \<and> (\<exists>S. float_sum 0 xs = Inr S \<and> fdiv S (real (length xs)) = Inr g))"
  using assms by (auto simp: float_mean_def split: if_splits sum.splits)

lemma score_global_Inr:
  assumes "\<forall>(k, d)\<in>set domains. score_domain d (get_answers all_answers k) = Inr (f k)"
    and "float_mean (map f (included domains all_answers)) = Inr g"
  shows "\<exists>r. score_global domains all_answers = Inr r
          \<and> fst ` set r = fst ` set domains \<union> {''__global__''}
          \<and> (\<forall>k\<in>fst ` set domains. k \<noteq> ''__global__'' \<longrightarrow> map_of r k = Some (f k))
          \<and> map_of r ''__global__'' = Some g"
proof -
  let ?inc = "included domains all_answers"
  have "\<exists>S. float_sum 0 (map f ?inc) = Inr S
          \<and> (if 0 < length ?inc then fdiv S (real (length ?inc)) else Inr 0) = Inr g"
    using float_mean_Inr[OF assms(2)] by auto
  then obtain S where fs: "float_sum 0 (map f ?inc) = Inr S"
    and q: "(if 0 < length ?inc then fdiv S (real (length ?inc)) else Inr 0) = Inr g"
    by (elim exE conjE)
  from score_global_loop_Inr[OF assms(1) fs, of "[]" 0, simplified]
  obtain ds' where l0: "score_global_loop domains all_answers [] 0 0 =
            Inr (ds', S, length ?inc)"
    and m00: "map_of ds' = (\<lambda>k. if k \<in> fst ` set domains then Some (f k)
                                 else map_of ([] :: (string \<times> real) list) k)"
    and k0: "fst ` set ds' = fst ` set domains"
    by (elim exE conjE)
  have m0: "map_of ds' = (\<lambda>k. if k \<in> fst ` set domains then Some (f k) else None)"
    unfolding m00 by (simp cong: if_cong)
  have r: "score_global domains all_answers = Inr (AList.update ''__global__'' g ds')"
    unfolding score_global_def l0 using q by simp
  have k': "fst ` set (AList.update ''__global__'' g ds') = fst ` set domains \<union> {''__global__''}"
    by (simp add: dom_update k0)
  have m1: "\<forall>x\<in>fst ` set domains. x \<noteq> ''__global__''
              \<longrightarrow> map_of (AList.update ''__global__'' g ds') x = Some (f x)"
    by (simp add: update_conv' m0)
  have m2: "map_of (AList.update ''__global__'' g ds') ''__global__'' = Some g"
    by (simp add: update_conv')
  show ?thesis
    by (intro exI[of _ "AList.update ''__global__'' g ds'"] conjI r k' m1 m2)
qed






section \<open>Properties of the extraction of weak and strong points\<close>

lemma update_fresh: "k \<notin> fst ` set al \<Longrightarrow> AList.update k v al = al @ [(k, v)]"
  by (induction al) auto

lemma py_dict_acc:
  assumes "distinct (map fst items)" and "fst ` set acc \<inter> fst ` set items = {}"
  shows "foldl (\<lambda>d (k, v). AList.update k v d) acc items = acc @ items"
  using assms
proof (induction items arbitrary: acc)
  case Nil
  then show ?case by simp
next
  case (Cons kv items)
  obtain k v where kv: "kv = (k, v)" by (cases kv)
  from Cons.prems kv have fresh: "k \<notin> fst ` set acc" by auto
  have d: "distinct (map fst items)" using Cons.prems by simp
  have disj: "fst ` set (acc @ [(k, v)]) \<inter> fst ` set items = {}"
    using Cons.prems kv by auto
  show ?case
    using Cons.IH[OF d disj] by (simp add: kv update_fresh[OF fresh])
qed

lemma py_dict_distinct: "distinct (map fst items) \<Longrightarrow> py_dict items = items"
  using py_dict_acc[of items "[]"] by (simp add: py_dict_def)

lemma kept_Cons:
  "kept keep f ((k, d) # rest) all_answers =
     (if get_answers all_answers k \<noteq> [] \<and> keep (classify_domain (f k))
      then (k, f k) # kept keep f rest all_answers else kept keep f rest all_answers)"
  by (simp add: kept_def)

lemma fst_kept: "map fst (kept keep f domains all_answers) =
    filter (\<lambda>k. get_answers all_answers k \<noteq> [] \<and> keep (classify_domain (f k))) (map fst domains)"
  by (simp add: kept_def comp_def)

lemma set_kept:
  "set (kept keep f domains all_answers) =
     {(k, f k) | k. k \<in> fst ` set domains \<and> get_answers all_answers k \<noteq> []
                   \<and> keep (classify_domain (f k))}"
  unfolding kept_def by (simp add: image_def) blast

lemma distinct_kept:
  "distinct (map fst domains) \<Longrightarrow> distinct (map fst (kept keep f domains all_answers))"
  by (simp add: fst_kept)

lemma extract_loop_Inr:
  assumes "\<forall>(k, d)\<in>set domains. get_answers all_answers k \<noteq> []
              \<longrightarrow> score_domain d (get_answers all_answers k) = Inr (f k)"
    and "distinct (map fst domains)"
    and "fst ` set scores \<inter> fst ` set domains = {}"
  shows "extract_loop keep domains all_answers scores
           = Inr (scores @ kept keep f domains all_answers)"
  using assms
proof (induction domains arbitrary: scores)
  case Nil
  then show ?case by (simp add: kept_def)
next
  case (Cons kd rest)
  obtain k d where kd: "kd = (k, d)" by (cases kd)
  have rest: "\<forall>(k, d)\<in>set rest. get_answers all_answers k \<noteq> []
              \<longrightarrow> score_domain d (get_answers all_answers k) = Inr (f k)"
    using Cons.prems(1) by simp
  have d: "distinct (map fst rest)" and knr: "k \<notin> fst ` set rest"
    using Cons.prems(2) kd by auto
  have fresh: "k \<notin> fst ` set scores" and disj: "fst ` set scores \<inter> fst ` set rest = {}"
    using Cons.prems(3) kd by auto
  show ?case
  proof (cases "get_answers all_answers k \<noteq> [] \<and> keep (classify_domain (f k))")
    case True
    then have sd: "score_domain d (get_answers all_answers k) = Inr (f k)"
      using Cons.prems(1) kd by simp
    have disj': "fst ` set (scores @ [(k, f k)]) \<inter> fst ` set rest = {}"
      using disj knr by auto
    have "extract_loop keep (kd # rest) all_answers scores
            = extract_loop keep rest all_answers (scores @ [(k, f k)])"
      using True by (simp add: kd sd update_fresh[OF fresh])
    also have "\<dots> = Inr ((scores @ [(k, f k)]) @ kept keep f rest all_answers)"
      by (rule Cons.IH[OF rest d disj'])
    finally show ?thesis using True by (simp add: kd kept_Cons)
  next
    case False
    have "extract_loop keep (kd # rest) all_answers scores
            = extract_loop keep rest all_answers scores"
    proof (cases "get_answers all_answers k = []")
      case True
      then show ?thesis by (simp add: kd)
    next
      case ne: False
      then have sd: "score_domain d (get_answers all_answers k) = Inr (f k)"
        using Cons.prems(1) kd by simp
      from ne False have "\<not> keep (classify_domain (f k))" by simp
      with ne show ?thesis by (simp add: kd sd)
    qed
    also have "\<dots> = Inr (scores @ kept keep f rest all_answers)"
      by (rule Cons.IH[OF rest d disj])
    finally show ?thesis using False by (simp add: kd kept_Cons)
  qed
qed

lemma distinct_fst_sort_key:
  "distinct (map fst xs) \<Longrightarrow> distinct (map fst (sort_key g xs))"
  by (simp add: distinct_map)

lemma extract_weak_points_Inr:
  assumes "\<forall>(k, d)\<in>set domains. get_answers all_answers k \<noteq> []
              \<longrightarrow> score_domain d (get_answers all_answers k) = Inr (f k)"
    and "distinct (map fst domains)"
  shows "extract_weak_points domains all_answers
           = Inr (sort_key snd (kept (\<lambda>c. c \<noteq> ''fort'') f domains all_answers))"
proof -
  have "distinct (map fst (sort_key snd (kept (\<lambda>c. c \<noteq> ''fort'') f domains all_answers)))"
    by (intro distinct_fst_sort_key distinct_kept assms(2))
  then show ?thesis
    using extract_loop_Inr[OF assms, of "[]" "\<lambda>c. c \<noteq> ''fort''"]
    by (simp add: extract_weak_points_def py_sorted_def py_dict_distinct)
qed

lemma extract_strong_points_Inr:
  assumes "\<forall>(k, d)\<in>set domains. get_answers all_answers k \<noteq> []
              \<longrightarrow> score_domain d (get_answers all_answers k) = Inr (f k)"
    and "distinct (map fst domains)"
  shows "extract_strong_points domains all_answers
           = Inr (rev (sort_key snd (rev (kept (\<lambda>c. c = ''fort'') f domains all_answers))))"
proof -
  have "distinct (map fst (rev (kept (\<lambda>c. c = ''fort'') f domains all_answers)))"
    using distinct_kept[OF assms(2), of "\<lambda>c. c = ''fort''" f all_answers]
    by (simp add: rev_map[symmetric])
  then have "distinct (map fst (rev (sort_key snd (rev (kept (\<lambda>c. c = ''fort'') f domains all_answers)))))"
    by (simp add: rev_map[symmetric] distinct_fst_sort_key)
  then show ?thesis
    using extract_loop_Inr[OF assms, of "[]" "\<lambda>c. c = ''fort''"]
    by (simp add: extract_strong_points_def py_sorted_def py_dict_distinct)
qed


text \<open>
  Claim C6. When no scored domain raises and the domain ids are distinct (they
  are the keys of a dictionary), \<^verbatim>\<open>extract_weak_points\<close> holds exactly the
  domains with a non-empty answer sub-map whose tier is not \<^verbatim>\<open>fort\<close>, in
  ascending order of score, and \<^verbatim>\<open>extract_strong_points\<close> exactly those whose
  tier is \<^verbatim>\<open>fort\<close>, in descending order of score; a domain without answers is
  in neither.
\<close>

theorem extract_points_spec:
  assumes "\<forall>(k, d)\<in>set domains. get_answers all_answers k \<noteq> []
              \<longrightarrow> score_domain d (get_answers all_answers k) = Inr (f k)"
    and "distinct (map fst domains)"
  shows "\<exists>weak strong.
           extract_weak_points domains all_answers = Inr weak
         \<and> extract_strong_points domains all_answers = Inr strong
         \<and> set weak = {(k, f k) | k. k \<in> fst ` set domains \<and> get_answers all_answers k \<noteq> []
                                     \<and> classify_domain (f k) \<noteq> ''fort''}
         \<and> set strong = {(k, f k) | k. k \<in> fst ` set domains \<and> get_answers all_answers k \<noteq> []
                                     \<and> classify_domain (f k) = ''fort''}
         \<and> sorted (map snd weak) \<and> sorted (rev (map snd strong))
         \<and> distinct (map fst weak) \<and> distinct (map fst strong)
         \<and> (\<forall>k. get_answers all_answers k = []
                \<longrightarrow> k \<notin> fst ` set weak \<and> k \<notin> fst ` set strong)"
proof -
  let ?W = "kept (\<lambda>c. c \<noteq> ''fort'') f domains all_answers"
  let ?S = "kept (\<lambda>c. c = ''fort'') f domains all_answers"
  let ?weak = "sort_key snd ?W"
  let ?strong = "rev (sort_key snd (rev ?S))"
  have w: "extract_weak_points domains all_answers = Inr ?weak"
    by (rule extract_weak_points_Inr[OF assms])
  have s: "extract_strong_points domains all_answers = Inr ?strong"
    by (rule extract_strong_points_Inr[OF assms])
  have sw: "set ?weak = {(k, f k) | k. k \<in> fst ` set domains \<and> get_answers all_answers k \<noteq> []
                                     \<and> classify_domain (f k) \<noteq> ''fort''}"
    by (simp add: set_kept)
  have ss: "set ?strong = {(k, f k) | k. k \<in> fst ` set domains \<and> get_answers all_answers k \<noteq> []
                                     \<and> classify_domain (f k) = ''fort''}"
    by (simp add: set_kept)
  have ow: "sorted (map snd ?weak)" by simp
  have os: "sorted (rev (map snd ?strong))" by (simp add: rev_map)
  have dw: "distinct (map fst ?weak)"
    by (intro distinct_fst_sort_key distinct_kept assms(2))
  have "distinct (map fst (rev ?S))"
    using distinct_kept[OF assms(2), of "\<lambda>c. c = ''fort''" f all_answers]
    by (simp add: rev_map[symmetric])
  then have ds: "distinct (map fst ?strong)"
    by (simp add: rev_map[symmetric] distinct_fst_sort_key)
  have none: "\<forall>k. get_answers all_answers k = []
                \<longrightarrow> k \<notin> fst ` set ?weak \<and> k \<notin> fst ` set ?strong"
    unfolding sw ss by auto
  show ?thesis
    by (intro exI[of _ ?weak] exI[of _ ?strong] conjI w s sw ss ow os dw ds none)
qed

theorem extract_points_spec_witness:
  "list_all (\<lambda>(k, d). score_domain d (get_answers example_tier_answers k)
                         = Inr (if k = ''a'' then 90 else if k = ''b'' then 50 else 30))
      example_tiers
   \<and> distinct (map fst example_tiers)
   \<and> extract_weak_points example_tiers example_tier_answers = Inr [(''c'', 30), (''b'', 50)]
   \<and> extract_strong_points example_tiers example_tier_answers = Inr [(''a'', 90)]"
proof -
  let ?f = "\<lambda>k. if k = ''a'' then 90 else if k = ''b'' then 50 else (30 :: real)"
  have h: "\<forall>(k, d)\<in>set example_tiers.
             score_domain d (get_answers example_tier_answers k) = Inr (?f k)"
    by (simp add: example_tiers_def example_tier_answers_def example_domain_def
        example_question_def score_domain_def score_question_rating_exact get_answer_def
        get_answers_def float_eval)
  then have h': "\<forall>(k, d)\<in>set example_tiers. get_answers example_tier_answers k \<noteq> []
             \<longrightarrow> score_domain d (get_answers example_tier_answers k) = Inr (?f k)"
    by auto
  have d: "distinct (map fst example_tiers)"
    by (simp add: example_tiers_def)
  have w: "extract_weak_points example_tiers example_tier_answers = Inr [(''c'', 30), (''b'', 50)]"
    unfolding extract_weak_points_Inr[OF h' d]
    by (simp add: kept_def example_tiers_def
        example_tier_answers_def get_answers_def classify_domain_def STRONG_THRESHOLD_def
        IMPROVE_THRESHOLD_def)
  have s: "extract_strong_points example_tiers example_tier_answers = Inr [(''a'', 90)]"
    unfolding extract_strong_points_Inr[OF h' d]
    by (simp add: kept_def example_tiers_def
        example_tier_answers_def get_answers_def classify_domain_def STRONG_THRESHOLD_def
        IMPROVE_THRESHOLD_def)
  from extract_points_spec[OF h' d] h d w s show ?thesis by (simp add: list_all_iff)
qed

section \<open>Unanswered templates\<close>

lemma foldl_update_nonempty:
  "acc \<noteq> [] \<or> qs \<noteq> [] \<Longrightarrow>
     foldl (\<lambda>domain_answers q. AList.update (id_q q) PyNone domain_answers) acc qs \<noteq> []"
  by (induction qs arbitrary: acc) auto

lemma foldl_update_values:
  "snd ` set acc \<subseteq> {PyNone} \<Longrightarrow>
     snd ` set (foldl (\<lambda>domain_answers q. AList.update (id_q q) PyNone domain_answers) acc qs)
       \<subseteq> {PyNone}"
proof (induction qs arbitrary: acc)
  case Nil
  then show ?case by simp
next
  case (Cons q qs)
  have "snd ` set (AList.update (id_q q) PyNone acc) \<subseteq> {PyNone}"
    using Cons.prems by (induction acc) auto
  from Cons.IH[OF this] show ?case by simp
qed

lemma generate_empty_answers_distinct:
  assumes "distinct (map fst domains)"
  shows "generate_empty_answers domains
           = map (\<lambda>(k, d). (k, empty_domain_answers (questions d))) domains"
proof -
  let ?g = "\<lambda>(k, d). (k, empty_domain_answers (questions d))"
  have "generate_empty_answers domains = py_dict (map ?g domains)"
    unfolding generate_empty_answers_def py_dict_def foldl_map
    by (rule arg_cong[where f = "\<lambda>h. foldl h [] domains"]) (auto simp: fun_eq_iff)
  moreover have "map fst (map ?g domains) = map fst domains"
    by (induction domains) auto
  then have "distinct (map fst (map ?g domains))"
    using assms by (simp only:)
  then have "py_dict (map ?g domains) = map ?g domains"
    by (rule py_dict_distinct)
  ultimately show ?thesis by (simp only:)
qed

lemma get_answers_generate_empty:
  assumes "distinct (map fst domains)" and "(k, d) \<in> set domains"
  shows "get_answers (generate_empty_answers domains) k = empty_domain_answers (questions d)"
proof -
  have "map_of domains k = Some d" using assms by simp
  then have "map_of (map (\<lambda>(k, d). (k, empty_domain_answers (questions d))) domains) k
               = Some (empty_domain_answers (questions d))"
    by (simp add: map_of_map)
  then show ?thesis
    by (simp add: get_answers_def generate_empty_answers_distinct[OF assms(1)])
qed


lemma length_filter_remove:
  assumes "distinct xs" and "k \<in> set xs" and "P k"
  shows "length (filter P xs) = Suc (length (filter P (filter (\<lambda>x. x \<noteq> k) xs)))"
  using assms
proof (induction xs)
  case Nil
  then show ?case by simp
next
  case (Cons x xs)
  show ?case
  proof (cases "x = k")
    case True
    with Cons.prems have "k \<notin> set xs" by simp
    then have "filter (\<lambda>x. x \<noteq> k) xs = xs" by (auto simp: filter_id_conv)
    with True Cons.prems(3) show ?thesis by simp
  next
    case False
    with Cons show ?thesis by simp
  qed
qed

lemma included_remove:
  assumes "distinct (map fst domains)" and "(k, d) \<in> set domains"
    and "get_answers all_answers k \<noteq> []"
  shows "length (included domains all_answers)
           = Suc (length (included (filter (\<lambda>kd. fst kd \<noteq> k) domains) all_answers))"
proof -
  have "map fst (filter (\<lambda>kd. fst kd \<noteq> k) domains) = filter (\<lambda>x. x \<noteq> k) (map fst domains)"
    by (simp add: filter_map comp_def)
  moreover have "k \<in> set (map fst domains)" using assms(2) by force
  ultimately show ?thesis
    unfolding included_def
    using length_filter_remove[OF assms(1), of k "\<lambda>k. get_answers all_answers k \<noteq> []"] assms(3)
    by simp
qed

text \<open>
  Claim C10. A domain whose answer sub-map has keys but only \<^verbatim>\<open>None\<close> values
  counts as answered: it scores 0.0; the loop of \<^verbatim>\<open>score_global\<close> ends with
  \<^verbatim>\<open>count\<close> equal to the number of domains with a non-empty sub-map, of which
  it is one (without it the number is one less), and the global score is the
  float mean over these domains; and it is in the result of
  \<^verbatim>\<open>extract_weak_points\<close> with 0.0, which classifies as \<^verbatim>\<open>critique\<close>. The
  sub-map that \<^verbatim>\<open>generate_empty_answers\<close> builds for a domain with at least one
  question is of this kind. Only the presence of keys decides.
\<close>

theorem null_answers_are_answers:
  assumes "\<forall>(k, d)\<in>set domains. score_domain d (get_answers all_answers k) = Inr (f k)"
    and "distinct (map fst domains)"
    and "(k, d) \<in> set domains"
    and "get_answers all_answers k \<noteq> []"
    and "\<forall>v\<in>snd ` set (get_answers all_answers k). v = PyNone"
    and "float_mean (map f (included domains all_answers)) = Inr g"
  shows "f k = 0
       \<and> k \<in> set (included domains all_answers)
       \<and> (\<exists>domain_scores sum_scores.
             score_global_loop domains all_answers [] 0 0
               = Inr (domain_scores, sum_scores, length (included domains all_answers))
           \<and> float_sum 0 (map f (included domains all_answers)) = Inr sum_scores
           \<and> fdiv sum_scores (real (length (included domains all_answers))) = Inr g)
       \<and> length (included domains all_answers)
           = Suc (length (included (filter (\<lambda>kd. fst kd \<noteq> k) domains) all_answers))
       \<and> (\<exists>r. score_global domains all_answers = Inr r \<and> map_of r ''__global__'' = Some g)
       \<and> (\<exists>weak. extract_weak_points domains all_answers = Inr weak \<and> (k, 0) \<in> set weak)
       \<and> classify_domain 0 = ''critique''
       \<and> (questions d \<noteq> [] \<longrightarrow>
            get_answers (generate_empty_answers domains) k \<noteq> []
          \<and> (\<forall>v\<in>snd ` set (get_answers (generate_empty_answers domains) k). v = PyNone))"
proof -
  let ?inc = "included domains all_answers"
  have sd: "score_domain d (get_answers all_answers k) = Inr (f k)"
    using assms(1,3) by auto
  have zero: "f k = 0"
    by (rule score_domain_all_None[OF _ sd]) (simp add: get_answer_all_None[OF assms(5)])
  have inc: "k \<in> set ?inc"
    using assms(3,4) by (force simp: included_def)
  then have ne: "?inc \<noteq> []" by auto
  from float_mean_Inr[OF assms(6)] ne
  obtain S where fs: "float_sum 0 (map f ?inc) = Inr S"
    and q: "fdiv S (real (length ?inc)) = Inr g"
    by auto
  from score_global_loop_Inr[OF assms(1) fs, of "[]" 0, simplified]
  obtain ds' where l0: "score_global_loop domains all_answers [] 0 0 = Inr (ds', S, length ?inc)"
    by (elim exE conjE)
  have loop: "\<exists>domain_scores sum_scores.
             score_global_loop domains all_answers [] 0 0
               = Inr (domain_scores, sum_scores, length ?inc)
           \<and> float_sum 0 (map f ?inc) = Inr sum_scores
           \<and> fdiv sum_scores (real (length ?inc)) = Inr g"
    by (intro exI[of _ ds'] exI[of _ S] conjI l0 fs q)
  have one: "length ?inc
           = Suc (length (included (filter (\<lambda>kd. fst kd \<noteq> k) domains) all_answers))"
    by (rule included_remove[OF assms(2,3,4)])
  from score_global_Inr[OF assms(1,6)]
  obtain r where r: "score_global domains all_answers = Inr r"
    and g: "map_of r ''__global__'' = Some g"
    by (elim exE conjE)
  have glob: "\<exists>r. score_global domains all_answers = Inr r \<and> map_of r ''__global__'' = Some g"
    by (intro exI[of _ r] conjI r g)
  have crit: "classify_domain 0 = ''critique''"
    by (simp add: classify_domain_def STRONG_THRESHOLD_def IMPROVE_THRESHOLD_def)
  have h: "\<forall>(k, d)\<in>set domains. get_answers all_answers k \<noteq> []
              \<longrightarrow> score_domain d (get_answers all_answers k) = Inr (f k)"
    using assms(1) by auto
  have "(k, f k) \<in> set (kept (\<lambda>c. c \<noteq> ''fort'') f domains all_answers)"
    unfolding set_kept using assms(3,4) crit zero by force
  then have weak: "\<exists>weak. extract_weak_points domains all_answers = Inr weak \<and> (k, 0) \<in> set weak"
    unfolding extract_weak_points_Inr[OF h assms(2)] using zero by simp
  have gen: "questions d \<noteq> [] \<longrightarrow>
            get_answers (generate_empty_answers domains) k \<noteq> []
          \<and> (\<forall>v\<in>snd ` set (get_answers (generate_empty_answers domains) k). v = PyNone)"
    unfolding get_answers_generate_empty[OF assms(2,3)] empty_domain_answers_def
    using foldl_update_nonempty[of "[]" "questions d"] foldl_update_values[of "[]" "questions d"]
    by auto
  show ?thesis
    by (intro conjI zero inc loop one glob weak crit gen)
qed

theorem null_answers_are_answers_witness:
  "list_all (\<lambda>(k, d). score_domain d (get_answers example_template_answers k)
                         = Inr (if k = ''rh'' then 100 else 0)) example_template
   \<and> included example_template example_template_answers = [''finance'', ''rh'']
   \<and> included (filter (\<lambda>kd. fst kd \<noteq> ''finance'') example_template) example_template_answers
       = [''rh'']
   \<and> float_mean (map (\<lambda>k. if k = ''rh'' then 100 else 0)
        (included example_template example_template_answers)) = Inr 50
   \<and> (\<exists>r. score_global example_template example_template_answers = Inr r
          \<and> map_of r ''__global__'' = Some 50)
   \<and> (\<exists>weak. extract_weak_points example_template example_template_answers = Inr weak
          \<and> (''finance'', 0) \<in> set weak)
   \<and> get_answers (generate_empty_answers example_template) ''finance''
       = [(''f1'', PyNone), (''f2'', PyNone)]"
proof -
  let ?f = "\<lambda>k. if k = ''rh'' then 100 else (0 :: real)"
  let ?d = "example_domain ''finance''
              [example_question ''f1'' ''stars'', example_question ''f2'' ''boolean'']"
  have h: "\<forall>(k, d)\<in>set example_template.
             score_domain d (get_answers example_template_answers k) = Inr (?f k)"
    by (simp add: example_template_def example_template_answers_def example_domain_def
        example_question_def score_domain_def score_question_def get_answer_def get_answers_def
        float_eval)
  have d: "distinct (map fst example_template)"
    by (simp add: example_template_def)
  have m: "(''finance'', ?d) \<in> set example_template"
    by (simp add: example_template_def)
  have ne: "get_answers example_template_answers ''finance'' \<noteq> []"
    by (simp add: example_template_answers_def get_answers_def)
  have nn: "\<forall>v\<in>snd ` set (get_answers example_template_answers ''finance''). v = PyNone"
    by (simp add: example_template_answers_def get_answers_def)
  have i: "included example_template example_template_answers = [''finance'', ''rh'']"
    by (simp add: included_def example_template_def example_template_answers_def get_answers_def)
  have i': "included (filter (\<lambda>kd. fst kd \<noteq> ''finance'') example_template)
              example_template_answers = [''rh'']"
    by (simp add: included_def example_template_def example_template_answers_def get_answers_def)
  have fm: "float_mean (map ?f (included example_template example_template_answers)) = Inr 50"
    unfolding i by (simp add: float_mean_def float_eval)
  have g: "get_answers (generate_empty_answers example_template) ''finance''
       = [(''f1'', PyNone), (''f2'', PyNone)]"
    by (simp add: generate_empty_answers_def empty_domain_answers_def example_template_def
        example_domain_def example_question_def get_answers_def)
  from null_answers_are_answers[OF h d m ne nn fm] i i' fm g h
  show ?thesis by (simp add: list_all_iff)
qed

section \<open>Properties of the questionnaire builder\<close>

subsection \<open>Reading the heap\<close>

lemma those_map_Some:
  "those (map f xs) = Some ys \<longleftrightarrow> list_all2 (\<lambda>x y. f x = Some y) xs ys"
proof (induction xs arbitrary: ys)
  case Nil
  then show ?case by auto
next
  case (Cons x xs)
  show ?case
  proof (cases "f x")
    case None
    then show ?thesis by (auto simp: list_all2_Cons1)
  next
    case (Some y)
    then show ?thesis
      using Cons.IH by (cases "those (map f xs)") (auto simp: list_all2_Cons1)
  qed
qed

lemma deref_prefix: "prefix h h' \<Longrightarrow> deref h a = Some v \<Longrightarrow> deref h' a = Some v"
  by (auto simp: deref_def prefix_def nth_append split: if_splits)

lemma deref_new: "deref (h @ [v]) (length h) = Some v"
  by (simp add: deref_def)

lemma deref_Some_less: "deref h a = Some v \<Longrightarrow> a < length h"
  by (simp add: deref_def split: if_splits)

lemma read_question_prefix:
  "prefix h h' \<Longrightarrow> read_question h a = Some q \<Longrightarrow> read_question h' a = Some q"
  by (auto simp: read_question_def split: option.splits obj.splits dest: deref_prefix)

lemma read_list_prefix:
  "prefix h h' \<Longrightarrow> read_list h a = Some as \<Longrightarrow> read_list h' a = Some as"
  by (auto simp: read_list_def split: option.splits obj.splits dest: deref_prefix)

lemma list_addr_prefix:
  "prefix h h' \<Longrightarrow> list_addr h a = Some la \<Longrightarrow> list_addr h' a = Some la"
  by (auto simp: list_addr_def split: option.splits obj.splits dest: deref_prefix)

lemma read_all_prefix:
  assumes "prefix h h'" and "those (map (read_question h) as) = Some qs"
  shows "those (map (read_question h') as) = Some qs"
  using assms(2) unfolding those_map_Some
  by (rule list_all2_mono) (rule read_question_prefix[OF assms(1)])

lemma read_questions_prefix:
  assumes "prefix h h'" and "read_questions h la = Some qs"
  shows "read_questions h' la = Some qs"
proof -
  from assms(2) obtain as where l: "read_list h la = Some as"
    and q: "those (map (read_question h) as) = Some qs"
    by (auto simp: read_questions_def split: option.splits)
  show ?thesis
    by (simp add: read_questions_def read_list_prefix[OF assms(1) l] read_all_prefix[OF assms(1) q])
qed

lemma read_domain_Some:
  "read_domain h a = Some v \<longleftrightarrow>
     (\<exists>la qs. deref h a = Some (Domain_obj (id_d v) (label v) (description v) la)
        \<and> read_questions h la = Some qs \<and> questions v = qs \<and> domain.more v = ())"
  by (cases v) (auto simp: read_domain_def split: option.splits obj.splits)

lemma read_domain_prefix:
  assumes "prefix h h'" and "read_domain h a = Some v"
  shows "read_domain h' a = Some v"
  using assms(2) unfolding read_domain_Some
  by (auto dest: deref_prefix[OF assms(1)] read_questions_prefix[OF assms(1)])

lemma read_domains_Some:
  "read_domains h ds = Some vs \<longleftrightarrow>
     list_all2 (\<lambda>(k, a) (k', v). k' = k \<and> read_domain h a = Some v) ds vs"
proof -
  have "(\<lambda>x y. (case x of (k, a) \<Rightarrow> map_option (Pair k) (read_domain h a)) = Some y)
          = (\<lambda>(k, a) (k', v). k' = k \<and> read_domain h a = Some v)"
    by (auto simp: fun_eq_iff)
  then show ?thesis unfolding read_domains_def those_map_Some by (rule arg_cong)
qed

lemma read_domains_prefix:
  assumes "prefix h h'" and "read_domains h ds = Some vs"
  shows "read_domains h' ds = Some vs"
  using assms(2) unfolding read_domains_Some
  by (rule list_all2_mono) (auto dest: read_domain_prefix[OF assms(1)])

lemma memo_ok_prefix: "prefix h h' \<Longrightarrow> memo_ok n h memo \<Longrightarrow> memo_ok n h' memo"
  unfolding memo_ok_def
  by (fastforce dest: read_question_prefix prefix_length_le)

lemma read_question_new: "read_question (h @ [Question_obj q]) (length h) = Some q"
  by (simp add: read_question_def deref_new)

lemma deepcopy_questions_spec:
  assumes "those (map (read_question h) as) = Some qs" and "memo_ok n h memo" and "n \<le> length h"
  shows "\<exists>h' memo' ys. deepcopy_questions h memo as = Some (h', memo', ys)
           \<and> prefix h h' \<and> memo_ok n h' memo'
           \<and> those (map (read_question h') ys) = Some qs
           \<and> (\<forall>y\<in>set ys. n \<le> y \<and> y < length h')"
  using assms
proof (induction as arbitrary: h memo qs)
  case Nil
  then show ?case by simp
next
  case (Cons a as)
  from Cons.prems(1)[unfolded those_map_Some] obtain q qs' where qs: "qs = q # qs'"
    and ra: "read_question h a = Some q"
    and rest0: "list_all2 (\<lambda>x y. read_question h x = Some y) as qs'"
    by (auto simp: list_all2_Cons1)
  from rest0 have rest: "those (map (read_question h) as) = Some qs'"
    by (simp only: those_map_Some)
  show ?case
  proof (cases "map_of memo a")
    case (Some y)
    then have "(a, y) \<in> set memo" by (rule map_of_SomeD)
    with Cons.prems(2) ra have y: "n \<le> y" "y < length h" "read_question h y = Some q"
      by (auto simp: memo_ok_def)
    from Cons.IH[OF rest Cons.prems(2,3)]
    obtain h' memo' ys where r: "deepcopy_questions h memo as = Some (h', memo', ys)"
      and p: "prefix h h'" and m: "memo_ok n h' memo'"
      and v: "those (map (read_question h') ys) = Some qs'"
      and f: "\<forall>y\<in>set ys. n \<le> y \<and> y < length h'"
      by blast
    have e: "deepcopy_questions h memo (a # as) = Some (h', memo', y # ys)"
      by (simp add: Some r)
    have v': "those (map (read_question h') (y # ys)) = Some qs"
      by (simp add: qs v read_question_prefix[OF p y(3)])
    have f': "\<forall>z\<in>set (y # ys). n \<le> z \<and> z < length h'"
      using f y(1,2) prefix_length_le[OF p] by auto
    from e p m v' f' show ?thesis by blast
  next
    case None
    from ra have da: "deref h a = Some (Question_obj q)"
      by (auto simp: read_question_def split: option.splits obj.splits)
    let ?h1 = "h @ [Question_obj q]"
    let ?m1 = "(a, length h) # memo"
    have p1: "prefix h ?h1" by simp
    have m1: "memo_ok n ?h1 ?m1"
      using memo_ok_prefix[OF p1 Cons.prems(2)] Cons.prems(3)
        read_question_prefix[OF p1 ra] read_question_new[of h q]
      by (simp add: memo_ok_def)
    have rest1: "those (map (read_question ?h1) as) = Some qs'"
      by (rule read_all_prefix[OF p1 rest])
    have n1: "n \<le> length ?h1" using Cons.prems(3) by simp
    from Cons.IH[OF rest1 m1 n1]
    obtain h' memo' ys where r: "deepcopy_questions ?h1 ?m1 as = Some (h', memo', ys)"
      and p: "prefix ?h1 h'" and m: "memo_ok n h' memo'"
      and v: "those (map (read_question h') ys) = Some qs'"
      and f: "\<forall>y\<in>set ys. n \<le> y \<and> y < length h'"
      by blast
    have e: "deepcopy_questions h memo (a # as) = Some (h', memo', length h # ys)"
      by (simp add: None da r)
    have p': "prefix h h'" using p1 p by (rule prefix_order.trans)
    have v': "those (map (read_question h') (length h # ys)) = Some qs"
      by (simp add: qs v read_question_prefix[OF p read_question_new])
    have f': "\<forall>z\<in>set (length h # ys). n \<le> z \<and> z < length h'"
      using f Cons.prems(3) prefix_length_le[OF p] by auto
    from e p' m v' f' show ?thesis by blast
  qed
qed

lemma fresh_domain_prefix: "prefix h h' \<Longrightarrow> fresh_domain n h a \<Longrightarrow> fresh_domain n h' a"
  unfolding fresh_domain_def
  by (blast dest: deref_prefix read_list_prefix)

lemma fresh_domain_mono: "n' \<le> n \<Longrightarrow> fresh_domain n h a \<Longrightarrow> fresh_domain n' h a"
  unfolding fresh_domain_def list_all_iff
  by (meson order_trans)

lemma read_list_Some: "read_list h la = Some as \<longleftrightarrow> deref h la = Some (List_obj as)"
  by (auto simp: read_list_def split: option.splits obj.splits)

lemma list_addr_Some:
  "list_addr h a = Some la \<longleftrightarrow> (\<exists>i l d. deref h a = Some (Domain_obj i l d la))"
  by (auto simp: list_addr_def split: option.splits obj.splits)

lemma fresh_domain_list_addr:
  assumes "fresh_domain n h a"
  shows "\<exists>la. list_addr h a = Some la \<and> n \<le> la \<and> la < length h"
proof -
  from assms obtain i l d la as where d: "deref h a = Some (Domain_obj i l d la)"
    and n: "n \<le> la" and r: "read_list h la = Some as"
    unfolding fresh_domain_def by blast
  from r have "la < length h"
    unfolding read_list_Some by (rule deref_Some_less)
  moreover from d have "list_addr h a = Some la"
    unfolding list_addr_Some by blast
  ultimately show ?thesis using n by blast
qed

lemma read_list_new: "read_list (h @ [List_obj ys]) (length h) = Some ys"
  by (simp add: read_list_def deref_new)

lemma deepcopy_list_spec:
  assumes "read_questions h la = Some qs"
  shows "\<exists>h' lc ys. deepcopy_list h la = Some (h', lc) \<and> prefix h h'
           \<and> read_list h' lc = Some ys \<and> those (map (read_question h') ys) = Some qs
           \<and> length h \<le> lc \<and> lc < length h' \<and> list_all (\<lambda>y. length h \<le> y) ys"
proof -
  from assms obtain as where l: "deref h la = Some (List_obj as)"
    and q: "those (map (read_question h) as) = Some qs"
    by (auto simp: read_questions_def read_list_def split: option.splits obj.splits)
  have m: "memo_ok (length h) h []" by (simp add: memo_ok_def)
  from deepcopy_questions_spec[OF q m order_refl]
  obtain h1 memo' ys where r: "deepcopy_questions h [] as = Some (h1, memo', ys)"
    and p: "prefix h h1" and v: "those (map (read_question h1) ys) = Some qs"
    and f: "\<forall>y\<in>set ys. length h \<le> y \<and> y < length h1"
    by blast
  let ?h' = "h1 @ [List_obj ys]"
  have e: "deepcopy_list h la = Some (?h', length h1)"
    by (simp add: deepcopy_list_def l r)
  have p1: "prefix h1 ?h'" by simp
  have p': "prefix h ?h'" using p p1 by (rule prefix_order.trans)
  have v': "those (map (read_question ?h') ys) = Some qs"
    by (rule read_all_prefix[OF p1 v])
  have b: "length h \<le> length h1" "length h1 < length ?h'"
    using prefix_length_le[OF p] by simp_all
  have f': "list_all (\<lambda>y. length h \<le> y) ys"
    using f by (simp add: list_all_iff)
  from e p' read_list_new[of h1 ys] v' b f' show ?thesis by blast
qed

lemma deepcopy_list_read_questions:
  assumes "read_questions h la = Some qs"
  shows "\<exists>h' lc. deepcopy_list h la = Some (h', lc) \<and> prefix h h'
           \<and> read_questions h' lc = Some qs"
  using deepcopy_list_spec[OF assms] by (auto simp: read_questions_def)

lemma deepcopy_domain_spec:
  assumes "read_domain h a = Some v"
  shows "\<exists>h' a'. deepcopy_domain h a = Some (h', a') \<and> prefix h h'
           \<and> read_domain h' a' = Some v \<and> fresh_domain (length h) h' a'"
proof -
  from assms obtain la qs where d: "deref h a = Some (Domain_obj (id_d v) (label v) (description v) la)"
    and q: "read_questions h la = Some qs" and v: "questions v = qs" "domain.more v = ()"
    unfolding read_domain_Some by blast
  from deepcopy_list_spec[OF q]
  obtain h1 lc ys where r: "deepcopy_list h la = Some (h1, lc)" and p: "prefix h h1"
    and l: "read_list h1 lc = Some ys" and rq: "those (map (read_question h1) ys) = Some qs"
    and b: "length h \<le> lc" "lc < length h1" and f: "list_all (\<lambda>y. length h \<le> y) ys"
    by blast
  let ?o = "Domain_obj (id_d v) (label v) (description v) lc"
  let ?h' = "h1 @ [?o]"
  have e: "deepcopy_domain h a = Some (?h', length h1)"
    by (simp add: deepcopy_domain_def d r)
  have p1: "prefix h1 ?h'" by simp
  have p': "prefix h ?h'" using p p1 by (rule prefix_order.trans)
  have dn: "deref ?h' (length h1) = Some ?o" by (rule deref_new)
  have l': "read_list ?h' lc = Some ys" by (rule read_list_prefix[OF p1 l])
  have rq': "read_questions ?h' lc = Some qs"
    using l' read_all_prefix[OF p1 rq] by (simp add: read_questions_def)
  have rd: "read_domain ?h' (length h1) = Some v"
    unfolding read_domain_Some using dn rq' v by blast
  have fr: "fresh_domain (length h) ?h' (length h1)"
    unfolding fresh_domain_def using prefix_length_le[OF p] dn b(1) l' f by blast
  from e p' rd fr show ?thesis by blast
qed

lemma read_domains_Cons:
  "read_domains h ((k, a) # ds) = Some vs \<longleftrightarrow>
     (\<exists>v vs'. vs = (k, v) # vs' \<and> read_domain h a = Some v \<and> read_domains h ds = Some vs')"
  unfolding read_domains_Some by (auto simp: list_all2_Cons1)

lemma copy_domains_spec:
  assumes "read_domains h ds = Some vs"
  shows "\<exists>h' ds'. copy_domains h ds = Some (h', ds') \<and> prefix h h'
           \<and> read_domains h' ds' = Some vs \<and> map fst ds' = map fst ds
           \<and> list_all (fresh_domain (length h) h') (map snd ds')
           \<and> distinct (map (list_addr h') (map snd ds'))"
  using assms
proof (induction ds arbitrary: h vs)
  case Nil
  then show ?case by (simp add: read_domains_def)
next
  case (Cons ka rest)
  obtain k a where ka: "ka = (k, a)" by (cases ka)
  from Cons.prems obtain v vs' where vs: "vs = (k, v) # vs'"
    and rd: "read_domain h a = Some v" and rr: "read_domains h rest = Some vs'"
    unfolding ka read_domains_Cons by blast
  from deepcopy_domain_spec[OF rd]
  obtain h1 a1 where c1: "deepcopy_domain h a = Some (h1, a1)" and p1: "prefix h h1"
    and rd1: "read_domain h1 a1 = Some v" and f1: "fresh_domain (length h) h1 a1"
    by blast
  from Cons.IH[OF read_domains_prefix[OF p1 rr]]
  obtain h2 ds2 where c2: "copy_domains h1 rest = Some (h2, ds2)" and p2: "prefix h1 h2"
    and rd2: "read_domains h2 ds2 = Some vs'" and k2: "map fst ds2 = map fst rest"
    and f2: "list_all (fresh_domain (length h1) h2) (map snd ds2)"
    and d2: "distinct (map (list_addr h2) (map snd ds2))"
    by blast
  have e: "copy_domains h (ka # rest) = Some (h2, (k, a1) # ds2)"
    by (simp add: ka c1 c2)
  have p: "prefix h h2" using p1 p2 by (rule prefix_order.trans)
  have r: "read_domains h2 ((k, a1) # ds2) = Some vs"
    unfolding read_domains_Cons using vs read_domain_prefix[OF p2 rd1] rd2 by blast
  have ks: "map fst ((k, a1) # ds2) = map fst (ka # rest)"
    by (simp add: ka k2)
  have le: "length h \<le> length h1" by (rule prefix_length_le[OF p1])
  have f: "list_all (fresh_domain (length h) h2) (map snd ((k, a1) # ds2))"
    using fresh_domain_prefix[OF p2 f1] f2 fresh_domain_mono[OF le]
    by (auto simp: list_all_iff)
  from fresh_domain_list_addr[OF f1] obtain la1 where
    la1: "list_addr h1 a1 = Some la1" "la1 < length h1" by blast
  have la1': "list_addr h2 a1 = Some la1" by (rule list_addr_prefix[OF p2 la1(1)])
  have "Some la1 \<notin> set (map (list_addr h2) (map snd ds2))"
  proof
    assume "Some la1 \<in> set (map (list_addr h2) (map snd ds2))"
    then have "Some la1 \<in> list_addr h2 ` set (map snd ds2)"
      by (simp only: set_map)
    then obtain x where lx': "Some la1 = list_addr h2 x" and x: "x \<in> set (map snd ds2)"
      by (rule imageE)
    from lx' have lx: "list_addr h2 x = Some la1" by simp
    from f2 x have "fresh_domain (length h1) h2 x" by (auto simp: list_all_iff)
    from fresh_domain_list_addr[OF this] lx have "length h1 \<le> la1" by auto
    with la1(2) show False by simp
  qed
  then have d: "distinct (map (list_addr h2) (map snd ((k, a1) # ds2)))"
    using d2 la1' by simp
  from e p r ks f d show ?case by blast
qed

lemma deref_update:
  "deref (h[la := v]) a = (if a = la \<and> la < length h then Some v else deref h a)"
  by (simp add: deref_def)

lemma prefix_update:
  assumes "prefix h0 h" and "length h0 \<le> la"
  shows "prefix h0 (h[la := v])"
proof -
  from assms(1) obtain ext where "h = h0 @ ext" by (auto simp: prefix_def)
  with assms(2) have "h[la := v] = h0 @ ext[la - length h0 := v]"
    by (simp add: list_update_append)
  then show ?thesis by simp
qed

lemma read_question_update:
  assumes "read_list h la = Some old"
  shows "read_question (h[la := List_obj zs]) x = read_question h x"
  using assms
  by (auto simp: read_question_def read_list_Some deref_update split: option.splits obj.splits)

lemma read_list_update:
  assumes "read_list h la = Some old"
  shows "read_list (h[la := List_obj zs]) x = (if x = la then Some zs else read_list h x)"
  using assms deref_Some_less[of h la]
  by (auto simp: read_list_def deref_update split: option.splits obj.splits)

lemma list_addr_update:
  assumes "read_list h la = Some old"
  shows "list_addr (h[la := List_obj zs]) a = list_addr h a"
  using assms
  by (auto simp: list_addr_def read_list_Some deref_update split: option.splits obj.splits)

lemma read_questions_update:
  assumes "read_list h la = Some old"
  shows "read_questions (h[la := List_obj zs]) x =
           (if x = la then those (map (read_question h) zs) else read_questions h x)"
proof -
  have rq: "read_question (h[la := List_obj zs]) = read_question h"
    by (rule ext) (rule read_question_update[OF assms])
  show ?thesis
    unfolding read_questions_def rq by (simp add: read_list_update[OF assms])
qed

lemma read_domain_update_other:
  assumes "read_list h la = Some old" and "list_addr h a = Some la'" and "la' \<noteq> la"
  shows "read_domain (h[la := List_obj zs]) a = read_domain h a"
proof -
  from assms(2) obtain i l d where d: "deref h a = Some (Domain_obj i l d la')"
    unfolding list_addr_Some by blast
  with assms(1) have "a \<noteq> la" by (auto simp: read_list_Some)
  then have "deref (h[la := List_obj zs]) a = deref h a" by (simp add: deref_update)
  then show ?thesis
    using d assms(3) by (simp add: read_domain_def read_questions_update[OF assms(1)])
qed

lemma read_domain_update_same:
  assumes "read_list h la = Some old" and "list_addr h a = Some la"
    and "read_domain h a = Some v" and "those (map (read_question h) zs) = Some qs"
  shows "read_domain (h[la := List_obj zs]) a = Some (v\<lparr>questions := qs\<rparr>)"
proof -
  from assms(3) obtain la' where d: "deref h a = Some (Domain_obj (id_d v) (label v) (description v) la')"
    unfolding read_domain_Some by blast
  with assms(2) have la': "la' = la" by (simp add: list_addr_def)
  from d assms(1) have "a \<noteq> la" by (auto simp: read_list_Some)
  then have "deref (h[la := List_obj zs]) a = deref h a" by (simp add: deref_update)
  then show ?thesis
    using d la' assms(4) by (simp add: read_domain_def read_questions_update[OF assms(1)])
qed

lemma fresh_domain_update:
  assumes "read_list h la = Some old" and "fresh_domain n h a" and "list_all (\<lambda>y. n \<le> y) zs"
  shows "fresh_domain n (h[la := List_obj zs]) a"
proof -
  from assms(2) obtain i l d la' as where na: "n \<le> a"
    and d: "deref h a = Some (Domain_obj i l d la')" and nl: "n \<le> la'"
    and r: "read_list h la' = Some as" and f: "list_all (\<lambda>y. n \<le> y) as"
    unfolding fresh_domain_def by blast
  from d assms(1) have "a \<noteq> la" by (auto simp: read_list_Some)
  then have d': "deref (h[la := List_obj zs]) a = Some (Domain_obj i l d la')"
    using d by (simp add: deref_update)
  have "\<exists>as'. read_list (h[la := List_obj zs]) la' = Some as' \<and> list_all (\<lambda>y. n \<le> y) as'"
    using r f assms(3) by (simp add: read_list_update[OF assms(1)])
  with na d' nl show ?thesis unfolding fresh_domain_def by blast
qed

lemma those_map_append:
  assumes "those (map f xs) = Some as" and "those (map f ys) = Some bs"
  shows "those (map f (xs @ ys)) = Some (as @ bs)"
  using assms unfolding those_map_Some by (rule list_all2_appendI)

lemma distinct_keys_addr:
  assumes "distinct (map g (map snd ds))" and "(k1, a1) \<in> set ds" and "(k2, a2) \<in> set ds"
    and "k1 \<noteq> k2"
  shows "g a1 \<noteq> g a2"
proof
  assume e: "g a1 = g a2"
  from assms(1) have "inj_on (g \<circ> snd) (set ds)"
    by (simp add: distinct_map)
  from inj_onD[OF this _ assms(2,3)] e have "(k1, a1) = (k2, a2)" by simp
  with assms(4) show False by simp
qed

lemma list_all_memD: "list_all P xs \<Longrightarrow> x \<in> set xs \<Longrightarrow> P x"
  unfolding list_all_iff by blast

lemma extend_step:
  assumes p0: "prefix h0 h"
    and rd: "read_domains h ds = Some vs"
    and fr: "list_all (fresh_domain (length h0) h) (map snd ds)"
    and di: "distinct (map (list_addr h) (map snd ds))"
    and dk: "distinct (map fst ds)"
    and mo: "map_of ds key = Some da"
    and rq: "read_questions h0 la_src = Some eqs"
  shows "\<exists>h1 lc i l d la old new.
           deepcopy_list h la_src = Some (h1, lc)
         \<and> deref h1 da = Some (Domain_obj i l d la)
         \<and> deref h1 lc = Some (List_obj new)
         \<and> deref h1 la = Some (List_obj old)
         \<and> prefix h0 (h1[la := List_obj (old @ new)])
         \<and> read_domains (h1[la := List_obj (old @ new)]) ds = Some (map (extend_value key eqs) vs)
         \<and> list_all (fresh_domain (length h0) (h1[la := List_obj (old @ new)])) (map snd ds)
         \<and> map (list_addr (h1[la := List_obj (old @ new)])) (map snd ds)
             = map (list_addr h) (map snd ds)"
proof -
  let ?n = "length h0"
  from deepcopy_list_spec[OF read_questions_prefix[OF p0 rq]]
  obtain h1 lc ys where c: "deepcopy_list h la_src = Some (h1, lc)" and p1: "prefix h h1"
    and rl: "read_list h1 lc = Some ys" and ry: "those (map (read_question h1) ys) = Some eqs"
    and fy: "list_all (\<lambda>y. length h \<le> y) ys"
    by blast
  have mem: "(key, da) \<in> set ds" using mo by (rule map_of_SomeD)
  then have "da \<in> set (map snd ds)" by force
  with fr have fda: "fresh_domain ?n h da" by (rule list_all_memD)
  then obtain i l d la old where dda: "deref h da = Some (Domain_obj i l d la)"
    and nla: "?n \<le> la" and rold: "read_list h la = Some old"
    and fold: "list_all (\<lambda>y. ?n \<le> y) old"
    unfolding fresh_domain_def by blast
  have dda1: "deref h1 da = Some (Domain_obj i l d la)" by (rule deref_prefix[OF p1 dda])
  have rold1: "read_list h1 la = Some old" by (rule read_list_prefix[OF p1 rold])
  let ?h2 = "h1[la := List_obj (old @ ys)]"
  have p01: "prefix h0 h1" using p0 p1 by (rule prefix_order.trans)
  have p02: "prefix h0 ?h2" by (rule prefix_update[OF p01 nla])
  have nh: "?n \<le> length h" by (rule prefix_length_le[OF p0])
  have fzs: "list_all (\<lambda>y. ?n \<le> y) (old @ ys)"
    using fold fy nh by (auto simp: list_all_iff)
  have fr2: "list_all (fresh_domain ?n ?h2) (map snd ds)"
    unfolding list_all_iff
  proof
    fix a assume "a \<in> set (map snd ds)"
    with fr have "fresh_domain ?n h a" by (rule list_all_memD)
    then have "fresh_domain ?n h1 a" by (rule fresh_domain_prefix[OF p1])
    then show "fresh_domain ?n ?h2 a" by (rule fresh_domain_update[OF rold1 _ fzs])
  qed
  have la2: "map (list_addr ?h2) (map snd ds) = map (list_addr h) (map snd ds)"
  proof (rule map_cong[OF refl])
    fix a assume "a \<in> set (map snd ds)"
    with fr have "fresh_domain ?n h a" by (rule list_all_memD)
    from fresh_domain_list_addr[OF this] obtain x where x: "list_addr h a = Some x" by blast
    have "list_addr ?h2 a = list_addr h1 a" by (rule list_addr_update[OF rold1])
    also have "\<dots> = list_addr h a" using list_addr_prefix[OF p1 x] x by simp
    finally show "list_addr ?h2 a = list_addr h a" .
  qed
  have lada: "list_addr h da = Some la" using dda unfolding list_addr_Some by blast
  have rd2: "read_domains ?h2 ds = Some (map (extend_value key eqs) vs)"
    unfolding read_domains_Some list_all2_map2
  proof (rule list.rel_mono_strong[OF rd[unfolded read_domains_Some]])
    fix x y assume xin: "x \<in> set ds"
      and xy: "(case x of (k, a) \<Rightarrow> \<lambda>(k', v). k' = k \<and> read_domain h a = Some v) y"
    obtain k a where x: "x = (k, a)" by (cases x)
    obtain k' v where y: "y = (k', v)" by (cases y)
    from xy x y have kk: "k' = k" and rv: "read_domain h a = Some v" by simp_all
    have rv1: "read_domain h1 a = Some v" by (rule read_domain_prefix[OF p1 rv])
    have "read_domain ?h2 a = Some (snd (extend_value key eqs (k, v)))"
    proof (cases "k = key")
      case True
      with xin x dk have "map_of ds key = Some a" by simp
      with mo have a: "a = da" by simp
      from rv1 a obtain la' qs where "deref h1 da = Some (Domain_obj (id_d v) (label v) (description v) la')"
        and q: "read_questions h1 la' = Some qs" "questions v = qs"
        unfolding read_domain_Some by blast
      with dda1 have "la' = la" by simp
      with q rold1 have "those (map (read_question h1) old) = Some (questions v)"
        by (simp add: read_questions_def)
      from those_map_append[OF this ry]
      have "read_domain ?h2 da = Some (v\<lparr>questions := questions v @ eqs\<rparr>)"
        using rv1 a by (intro read_domain_update_same[OF rold1 list_addr_prefix[OF p1 lada]]) simp_all
      then show ?thesis using True a by (simp add: extend_value_def)
    next
      case False
      from xin x have ain: "(k, a) \<in> set ds" by simp
      from distinct_keys_addr[OF di ain mem False] lada
      have ne: "list_addr h a \<noteq> Some la" by simp
      from ain have "a \<in> set (map snd ds)" by force
      with fr have "fresh_domain ?n h a" by (rule list_all_memD)
      from fresh_domain_list_addr[OF this] obtain la_a where la_a: "list_addr h a = Some la_a"
        by blast
      with ne have "la_a \<noteq> la" by simp
      from read_domain_update_other[OF rold1 list_addr_prefix[OF p1 la_a] this]
      show ?thesis using rv1 False by (simp add: extend_value_def)
    qed
    then show "(case x of (k, a) \<Rightarrow> \<lambda>(k', v). k' = k \<and> read_domain ?h2 a = Some v)
                 (extend_value key eqs y)"
      using x y kk by (simp add: extend_value_def)
  qed
  have dlc: "deref h1 lc = Some (List_obj ys)" using rl unfolding read_list_Some .
  have dla: "deref h1 la = Some (List_obj old)" using rold1 unfolding read_list_Some .
  from c dda1 dlc dla p02 rd2 fr2 la2 show ?thesis by blast
qed

lemma extras_Nil: "extras h [] k = []"
  by (simp add: extras_def)

lemma extras_Cons:
  "extras h ((key, la) # rest) k =
     (if key = k then (case read_questions h la of None \<Rightarrow> [] | Some qs \<Rightarrow> qs) else [])
     @ extras h rest k"
  by (simp add: extras_def)

lemma read_domains_keys:
  "read_domains h ds = Some vs \<Longrightarrow> map fst vs = map fst ds"
proof (induction ds arbitrary: vs)
  case Nil
  then show ?case by (simp add: read_domains_def)
next
  case (Cons ka ds)
  obtain k a where ka: "ka = (k, a)" by (cases ka)
  from Cons.prems obtain v vs' where "vs = (k, v) # vs'" "read_domains h ds = Some vs'"
    unfolding ka read_domains_Cons by blast
  with Cons.IH[of vs'] show ?case by (simp add: ka)
qed

lemma extend_domains_spec:
  assumes "prefix h0 h"
    and "read_domains h ds = Some vs"
    and "list_all (fresh_domain (length h0) h) (map snd ds)"
    and "distinct (map (list_addr h) (map snd ds))"
    and "distinct (map fst ds)"
    and "list_all (\<lambda>la. read_questions h0 la \<noteq> None) (map snd es)"
  shows "\<exists>h'. extend_domains h ds es = Some h' \<and> prefix h0 h'
           \<and> read_domains h' ds = Some (map (extend_all h0 es) vs)
           \<and> list_all (fresh_domain (length h0) h') (map snd ds)"
  using assms
proof (induction es arbitrary: h vs)
  case Nil
  have "map (extend_all h0 []) vs = vs"
    by (induction vs) (auto simp: extend_all_def extras_Nil)
  with Nil show ?case by simp
next
  case (Cons e rest)
  obtain key la_src where e: "e = (key, la_src)" by (cases e)
  from Cons.prems(6) e obtain eqs where rq: "read_questions h0 la_src = Some eqs"
    and sec: "list_all (\<lambda>la. read_questions h0 la \<noteq> None) (map snd rest)"
    by auto
  show ?case
  proof (cases "map_of ds key")
    case None
    from Cons.IH[OF Cons.prems(1-5) sec]
    obtain h' where r: "extend_domains h ds rest = Some h'" and p: "prefix h0 h'"
      and rd: "read_domains h' ds = Some (map (extend_all h0 rest) vs)"
      and fr: "list_all (fresh_domain (length h0) h') (map snd ds)"
      by blast
    have ex: "extend_domains h ds (e # rest) = Some h'"
      by (simp add: e None r)
    from None have nk: "key \<notin> fst ` set ds" by (simp add: map_of_eq_None_iff)
    have "map (extend_all h0 (e # rest)) vs = map (extend_all h0 rest) vs"
    proof (rule map_cong[OF refl])
      fix x assume "x \<in> set vs"
      then have "fst x \<in> set (map fst vs)" by simp
      then have "fst x \<in> fst ` set ds"
        unfolding read_domains_keys[OF Cons.prems(2)] by simp
      with nk have "key \<noteq> fst x" by auto
      then show "extend_all h0 (e # rest) x = extend_all h0 rest x"
        by (cases x) (simp add: extend_all_def e extras_Cons)
    qed
    with ex p rd fr show ?thesis by simp
  next
    case (Some da)
    from extend_step[OF Cons.prems(1-5) Some rq]
    obtain h1 lc i l d la old new where c: "deepcopy_list h la_src = Some (h1, lc)"
      and d1: "deref h1 da = Some (Domain_obj i l d la)"
      and d2: "deref h1 lc = Some (List_obj new)"
      and d3: "deref h1 la = Some (List_obj old)"
      and p2: "prefix h0 (h1[la := List_obj (old @ new)])"
      and rd2: "read_domains (h1[la := List_obj (old @ new)]) ds
                  = Some (map (extend_value key eqs) vs)"
      and fr2: "list_all (fresh_domain (length h0) (h1[la := List_obj (old @ new)])) (map snd ds)"
      and la2: "map (list_addr (h1[la := List_obj (old @ new)])) (map snd ds)
                  = map (list_addr h) (map snd ds)"
      by blast
    let ?h2 = "h1[la := List_obj (old @ new)]"
    have di2: "distinct (map (list_addr ?h2) (map snd ds))"
      unfolding la2 by (rule Cons.prems(4))
    from Cons.IH[OF p2 rd2 fr2 di2 Cons.prems(5) sec]
    obtain h' where r: "extend_domains ?h2 ds rest = Some h'" and p: "prefix h0 h'"
      and rd: "read_domains h' ds = Some (map (extend_all h0 rest) (map (extend_value key eqs) vs))"
      and fr: "list_all (fresh_domain (length h0) h') (map snd ds)"
      by blast
    have ex: "extend_domains h ds (e # rest) = Some h'"
      by (simp add: e Some c d1 d2 d3 r)
    have "map (extend_all h0 rest) (map (extend_value key eqs) vs)
            = map (extend_all h0 (e # rest)) vs"
      unfolding map_map
    proof (rule map_cong[OF refl])
      fix x assume "x \<in> set vs"
      show "(extend_all h0 rest \<circ> extend_value key eqs) x = extend_all h0 (e # rest) x"
        by (cases x) (simp add: extend_all_def extend_value_def e extras_Cons rq)
    qed
    with ex p rd fr show ?thesis by simp
  qed
qed

lemma extras_distinct:
  "distinct (map fst es) \<Longrightarrow> extras h es k = sector_extra h es k"
proof (induction es)
  case Nil
  then show ?case by (simp add: extras_def sector_extra_def)
next
  case (Cons e es)
  obtain key la where e: "e = (key, la)" by (cases e)
  from Cons.prems e have nk: "key \<notin> fst ` set es" and d: "distinct (map fst es)" by auto
  show ?case
  proof (cases "key = k")
    case True
    with nk have "map_of es k = None" by (simp add: map_of_eq_None_iff)
    then have "extras h es k = []" using Cons.IH[OF d] by (simp add: sector_extra_def)
    then show ?thesis using True by (simp add: e extras_Cons sector_extra_def)
  next
    case False
    then show ?thesis using Cons.IH[OF d] by (simp add: e extras_Cons sector_extra_def)
  qed
qed

lemma extend_all_distinct:
  "distinct (map fst es) \<Longrightarrow> extend_all h es = with_extra h es"
  by (simp add: extend_all_def with_extra_def extras_distinct fun_eq_iff)

lemma readable_lists_prefix:
  assumes "prefix h h'" and "readable_lists h es"
  shows "readable_lists h' es"
  using assms(2) unfolding readable_lists_def list_all_iff
  by (auto dest: read_questions_prefix[OF assms(1)])

lemma sector_extra_prefix:
  assumes "prefix h h'" and "readable_lists h es"
  shows "sector_extra h' es k = sector_extra h es k"
proof (cases "map_of es k")
  case None
  then show ?thesis by (simp add: sector_extra_def)
next
  case (Some la)
  then have "la \<in> set (map snd es)" by (force dest: map_of_SomeD)
  with assms(2)[unfolded readable_lists_def] have "read_questions h la \<noteq> None"
    by (rule list_all_memD)
  then obtain qs where q: "read_questions h la = Some qs" by blast
  from read_questions_prefix[OF assms(1) q] q Some show ?thesis
    by (simp add: sector_extra_def)
qed

lemma wf_state_prefix:
  assumes "wf_state st" and "prefix (heap st) h'"
  shows "wf_state (st\<lparr>heap := h'\<rparr>)"
proof -
  from assms(1) obtain vs where "read_domains (heap st) (DOMAINS_COMMON st) = Some vs"
    by (auto simp: wf_state_def)
  from read_domains_prefix[OF assms(2) this]
  have r: "read_domains h' (DOMAINS_COMMON st) \<noteq> None" by simp
  have "list_all (\<lambda>sector. distinct (map fst (extra_questions sector))
                          \<and> readable_lists h' (extra_questions sector))
           (map snd (SECTORS st))"
    using assms(1) unfolding wf_state_def list_all_iff
    by (auto dest: readable_lists_prefix[OF assms(2)])
  with r assms(1) show ?thesis by (simp add: wf_state_def)
qed

lemma wf_state_sector:
  assumes "wf_state st" and "map_of (SECTORS st) sid = Some sector"
  shows "distinct (map fst (extra_questions sector))"
    and "readable_lists (heap st) (extra_questions sector)"
proof -
  from assms(2) have "sector \<in> set (map snd (SECTORS st))"
    by (force dest: map_of_SomeD)
  moreover from assms(1) have "list_all (\<lambda>sector. distinct (map fst (extra_questions sector))
                          \<and> readable_lists (heap st) (extra_questions sector))
           (map snd (SECTORS st))"
    by (simp add: wf_state_def)
  ultimately have "distinct (map fst (extra_questions sector))
                          \<and> readable_lists (heap st) (extra_questions sector)"
    by (rule list_all_memD[rotated])
  then show "distinct (map fst (extra_questions sector))"
    and "readable_lists (heap st) (extra_questions sector)" by simp_all
qed

lemma build_common:
  assumes "read_domains (heap st) (DOMAINS_COMMON st) = Some common"
  shows "\<exists>ds st'. build_domains_for_sector st None = Some (Inr ds, st')
           \<and> st' = st\<lparr>heap := heap st'\<rparr> \<and> prefix (heap st) (heap st')
           \<and> read_domains (heap st') ds = Some common
           \<and> map fst ds = map fst (DOMAINS_COMMON st)
           \<and> list_all (fresh_domain (length (heap st)) (heap st')) (map snd ds)"
proof -
  from copy_domains_spec[OF assms]
  obtain h1 ds where c: "copy_domains (heap st) (DOMAINS_COMMON st) = Some (h1, ds)"
    and p: "prefix (heap st) h1" and r: "read_domains h1 ds = Some common"
    and k: "map fst ds = map fst (DOMAINS_COMMON st)"
    and f: "list_all (fresh_domain (length (heap st)) h1) (map snd ds)"
    by blast
  have "build_domains_for_sector st None = Some (Inr ds, st\<lparr>heap := h1\<rparr>)"
    by (simp add: build_domains_for_sector_def c)
  with p r k f show ?thesis by simp
qed

lemma build_unknown:
  assumes "read_domains (heap st) (DOMAINS_COMMON st) = Some common"
    and "map_of (SECTORS st) sid = None"
  shows "\<exists>st'. build_domains_for_sector st (Some sid) = Some (Inl (UnknownSector sid), st')
           \<and> st' = st\<lparr>heap := heap st'\<rparr> \<and> prefix (heap st) (heap st')"
proof -
  from copy_domains_spec[OF assms(1)]
  obtain h1 ds where c: "copy_domains (heap st) (DOMAINS_COMMON st) = Some (h1, ds)"
    and p: "prefix (heap st) h1"
    by blast
  have "build_domains_for_sector st (Some sid) = Some (Inl (UnknownSector sid), st\<lparr>heap := h1\<rparr>)"
    by (simp add: build_domains_for_sector_def c assms(2))
  with p show ?thesis by simp
qed

lemma build_known:
  assumes "wf_state st"
    and "read_domains (heap st) (DOMAINS_COMMON st) = Some common"
    and "map_of (SECTORS st) sid = Some sector"
  shows "\<exists>ds st'. build_domains_for_sector st (Some sid) = Some (Inr ds, st')
           \<and> st' = st\<lparr>heap := heap st'\<rparr> \<and> prefix (heap st) (heap st')
           \<and> read_domains (heap st') ds
               = Some (map (with_extra (heap st) (extra_questions sector)) common)
           \<and> map fst ds = map fst (DOMAINS_COMMON st)
           \<and> list_all (fresh_domain (length (heap st)) (heap st')) (map snd ds)"
proof -
  from copy_domains_spec[OF assms(2)]
  obtain h1 ds where c: "copy_domains (heap st) (DOMAINS_COMMON st) = Some (h1, ds)"
    and p: "prefix (heap st) h1" and r: "read_domains h1 ds = Some common"
    and k: "map fst ds = map fst (DOMAINS_COMMON st)"
    and f: "list_all (fresh_domain (length (heap st)) h1) (map snd ds)"
    and d: "distinct (map (list_addr h1) (map snd ds))"
    by blast
  have dk: "distinct (map fst ds)"
    unfolding k using assms(1) by (simp add: wf_state_def)
  have rl: "list_all (\<lambda>la. read_questions (heap st) la \<noteq> None) (map snd (extra_questions sector))"
    using wf_state_sector(2)[OF assms(1,3)] by (simp add: readable_lists_def)
  from extend_domains_spec[OF p r f d dk rl]
  obtain h2 where e: "extend_domains h1 ds (extra_questions sector) = Some h2"
    and p2: "prefix (heap st) h2"
    and r2: "read_domains h2 ds = Some (map (extend_all (heap st) (extra_questions sector)) common)"
    and f2: "list_all (fresh_domain (length (heap st)) h2) (map snd ds)"
    by blast
  have "build_domains_for_sector st (Some sid) = Some (Inr ds, st\<lparr>heap := h2\<rparr>)"
    by (simp add: build_domains_for_sector_def c assms(3) e)
  with p2 r2 k f2 extend_all_distinct[OF wf_state_sector(1)[OF assms(1,3)]]
  show ?thesis by simp
qed

lemma read_domains_below:
  assumes "read_domains h ds = Some vs" and "a \<in> set (map snd ds)"
  shows "a < length h"
  using assms
proof (induction ds arbitrary: vs)
  case Nil
  then show ?case by simp
next
  case (Cons kb ds)
  obtain k b where kb: "kb = (k, b)" by (cases kb)
  from Cons.prems(1) obtain v vs' where rb: "read_domain h b = Some v"
    and rr: "read_domains h ds = Some vs'"
    unfolding kb read_domains_Cons by blast
  from rb have "b < length h"
    unfolding read_domain_Some by (auto dest: deref_Some_less)
  with Cons.IH[OF rr] Cons.prems(2) show ?case by (auto simp: kb)
qed

lemma read_result_prefix:
  assumes "prefix h h'" and "read_result h r = Some x"
  shows "read_result h' r = Some x"
proof (cases r)
  case (Inl e)
  with assms(2) show ?thesis by (simp add: read_result_def)
next
  case (Inr ds)
  with assms(2) obtain vs where "read_domains h ds = Some vs" and "x = Inr vs"
    by (auto simp: read_result_def)
  with read_domains_prefix[OF assms(1)] Inr show ?thesis by (simp add: read_result_def)
qed

lemma build_total:
  assumes "wf_state st" and "read_domains (heap st) (DOMAINS_COMMON st) = Some common"
  shows "\<exists>r st'. build_domains_for_sector st sector_id = Some (r, st')
           \<and> st' = st\<lparr>heap := heap st'\<rparr> \<and> prefix (heap st) (heap st')
           \<and> read_result (heap st') r = Some (build_value st common sector_id)"
proof (cases sector_id)
  case None
  from build_common[OF assms(2)] show ?thesis
    unfolding None by (auto simp: read_result_def build_value_def)
next
  case (Some sid)
  show ?thesis
  proof (cases "map_of (SECTORS st) sid")
    case None
    from build_unknown[OF assms(2) None] show ?thesis
      unfolding Some by (auto simp: read_result_def build_value_def None)
  next
    case (Some sector)
    from build_known[OF assms Some] show ?thesis
      unfolding \<open>sector_id = Some sid\<close> by (auto simp: read_result_def build_value_def Some)
  qed
qed

lemma build_value_prefix:
  assumes "wf_state st" and "prefix (heap st) h'"
  shows "build_value (st\<lparr>heap := h'\<rparr>) common sector_id = build_value st common sector_id"
proof (cases sector_id)
  case None
  then show ?thesis by (simp add: build_value_def)
next
  case (Some sid)
  show ?thesis
  proof (cases "map_of (SECTORS st) sid")
    case None
    then show ?thesis by (simp add: build_value_def Some)
  next
    case sec: (Some sector)
    have "with_extra h' (extra_questions sector) = with_extra (heap st) (extra_questions sector)"
      by (simp add: with_extra_def fun_eq_iff
          sector_extra_prefix[OF assms(2) wf_state_sector(2)[OF assms(1) sec]])
    then show ?thesis by (simp add: build_value_def Some sec)
  qed
qed

lemma read_sectors_prefix:
  assumes "wf_state st" and "prefix (heap st) h'"
  shows "read_sectors (st\<lparr>heap := h'\<rparr>) = read_sectors st"
proof -
  have "map (\<lambda>(sid, sector).
               (sid, map (\<lambda>(k, la). (k, read_questions h' la)) (extra_questions sector)))
          (SECTORS st)
        = map (\<lambda>(sid, sector).
               (sid, map (\<lambda>(k, la). (k, read_questions (heap st) la)) (extra_questions sector)))
          (SECTORS st)"
  proof (rule map_cong[OF refl])
  fix x assume x: "x \<in> set (SECTORS st)"
  obtain sid sector where xs: "x = (sid, sector)" by (cases x)
  from x xs have "sector \<in> set (map snd (SECTORS st))" by force
  moreover from assms(1) have "list_all (\<lambda>sector. distinct (map fst (extra_questions sector))
                          \<and> readable_lists (heap st) (extra_questions sector))
           (map snd (SECTORS st))"
    by (simp add: wf_state_def)
  ultimately have "distinct (map fst (extra_questions sector))
                          \<and> readable_lists (heap st) (extra_questions sector)"
    by (rule list_all_memD[rotated])
  then have rl: "list_all (\<lambda>la. read_questions (heap st) la \<noteq> None)
                   (map snd (extra_questions sector))"
    by (simp add: readable_lists_def)
  have "map (\<lambda>(k, la). (k, read_questions h' la)) (extra_questions sector)
          = map (\<lambda>(k, la). (k, read_questions (heap st) la)) (extra_questions sector)"
  proof (rule map_cong[OF refl])
    fix y assume y: "y \<in> set (extra_questions sector)"
    obtain k la where yk: "y = (k, la)" by (cases y)
    from y yk have "la \<in> set (map snd (extra_questions sector))" by force
    with rl have "read_questions (heap st) la \<noteq> None" by (rule list_all_memD)
    then obtain qs where q: "read_questions (heap st) la = Some qs" by blast
    from read_questions_prefix[OF assms(2) q] q
    show "(case y of (k, la) \<Rightarrow> (k, read_questions h' la))
            = (case y of (k, la) \<Rightarrow> (k, read_questions (heap st) la))"
      by (simp add: yk)
  qed
  then show "(case x of (sid, sector) \<Rightarrow>
                (sid, map (\<lambda>(k, la). (k, read_questions h' la)) (extra_questions sector)))
           = (case x of (sid, sector) \<Rightarrow>
                (sid, map (\<lambda>(k, la). (k, read_questions (heap st) la)) (extra_questions sector)))"
    by (simp add: xs)
  qed
  then show ?thesis by (simp add: read_sectors_def)
qed

lemma build_total_heap:
  assumes "wf_state st" and "read_domains (heap st) (DOMAINS_COMMON st) = Some common"
  shows "\<exists>r h'. build_domains_for_sector st sector_id = Some (r, st\<lparr>heap := h'\<rparr>)
           \<and> prefix (heap st) h'
           \<and> read_result h' r = Some (build_value st common sector_id)"
proof -
  from build_total[OF assms, of sector_id]
  obtain r st' where b: "build_domains_for_sector st sector_id = Some (r, st')"
    and e: "st' = st\<lparr>heap := heap st'\<rparr>" and p: "prefix (heap st) (heap st')"
    and rr: "read_result (heap st') r = Some (build_value st common sector_id)"
    by blast
  from b e have "build_domains_for_sector st sector_id = Some (r, st\<lparr>heap := heap st'\<rparr>)"
    by metis
  with p rr show ?thesis by blast
qed

lemma example_common:
  "read_domains (heap example_state) (DOMAINS_COMMON example_state)
     = Some [(''si'', example_domain ''si'' [example_question ''si_1'' ''stars''])]"
  by (simp add: example_state_def read_domains_def read_domain_def read_questions_def
      read_list_def read_question_def deref_def example_domain_def)

lemma example_wf: "wf_state example_state"
  by (simp add: wf_state_def example_common readable_lists_def)
     (simp add: example_state_def read_questions_def read_list_def read_question_def deref_def)

lemma example_tech:
  "map_of (SECTORS example_state) ''tech''
     = Some \<lparr>id_s = ''tech'', label_s = ''Tech'', extra_questions = [(''si'', 4), (''zz'', 6)]\<rparr>"
  by (simp add: example_state_def)

lemma example_extra:
  "map (with_extra (heap example_state) [(''si'', 4), (''zz'', 6)])
     [(''si'', example_domain ''si'' [example_question ''si_1'' ''stars''])]
   = [(''si'', example_domain ''si''
         [example_question ''si_1'' ''stars'', example_question ''si_701'' ''stars''])]"
  by (simp add: with_extra_def sector_extra_def example_state_def read_questions_def
      read_list_def read_question_def deref_def example_domain_def)

subsection \<open>The claims\<close>

text \<open>
  Claim C8. With no sector id, \<^verbatim>\<open>build_domains_for_sector\<close> returns a
  dictionary that reads back to the value of the common catalogue and is made of
  new objects only: each domain, its question list and its questions were
  allocated by the call, and no returned domain is an object of the common
  catalogue. With a sector id that \<^verbatim>\<open>SECTORS\<close> does not have, the call raises
  the unknown sector error and returns no dictionary.
\<close>

theorem build_domains_for_sector_common:
  assumes "read_domains (heap st) (DOMAINS_COMMON st) = Some common"
  shows "(\<exists>ds st'. build_domains_for_sector st None = Some (Inr ds, st')
            \<and> read_domains (heap st') ds = Some common
            \<and> list_all (fresh_domain (length (heap st)) (heap st')) (map snd ds)
            \<and> set (map snd ds) \<inter> set (map snd (DOMAINS_COMMON st)) = {})
       \<and> (map_of (SECTORS st) sid = None \<longrightarrow>
            (\<exists>st'. build_domains_for_sector st (Some sid) = Some (Inl (UnknownSector sid), st')))"
proof (intro conjI impI)
  from build_common[OF assms]
  obtain ds st' where b: "build_domains_for_sector st None = Some (Inr ds, st')"
    and r: "read_domains (heap st') ds = Some common"
    and f: "list_all (fresh_domain (length (heap st)) (heap st')) (map snd ds)"
    by blast
  have "set (map snd ds) \<inter> set (map snd (DOMAINS_COMMON st)) = {}"
  proof (rule ccontr)
    assume "set (map snd ds) \<inter> set (map snd (DOMAINS_COMMON st)) \<noteq> {}"
    then obtain a where a1: "a \<in> set (map snd ds)" and a2: "a \<in> set (map snd (DOMAINS_COMMON st))"
      by blast
    from list_all_memD[OF f a1] have "length (heap st) \<le> a" by (simp add: fresh_domain_def)
    with read_domains_below[OF assms a2] show False by simp
  qed
  with b r f show "\<exists>ds st'. build_domains_for_sector st None = Some (Inr ds, st')
            \<and> read_domains (heap st') ds = Some common
            \<and> list_all (fresh_domain (length (heap st)) (heap st')) (map snd ds)
            \<and> set (map snd ds) \<inter> set (map snd (DOMAINS_COMMON st)) = {}"
    by blast
next
  assume "map_of (SECTORS st) sid = None"
  from build_unknown[OF assms this]
  show "\<exists>st'. build_domains_for_sector st (Some sid) = Some (Inl (UnknownSector sid), st')"
    by blast
qed

theorem build_domains_for_sector_common_witness:
  "read_domains (heap example_state) (DOMAINS_COMMON example_state)
     = Some [(''si'', example_domain ''si'' [example_question ''si_1'' ''stars''])]
   \<and> (\<exists>ds st'. build_domains_for_sector example_state None = Some (Inr ds, st')
         \<and> read_domains (heap st') ds
             = Some [(''si'', example_domain ''si'' [example_question ''si_1'' ''stars''])]
         \<and> set (map snd ds) \<inter> set (map snd (DOMAINS_COMMON example_state)) = {})
   \<and> (\<exists>st'. build_domains_for_sector example_state (Some ''agro'')
               = Some (Inl (UnknownSector ''agro''), st'))"
proof -
  have n: "map_of (SECTORS example_state) ''agro'' = None"
    by (simp add: example_state_def)
  from build_domains_for_sector_common[OF example_common, of "''agro''"] n example_common
  show ?thesis by auto
qed

text \<open>
  Claim C9. For a sector id that \<^verbatim>\<open>SECTORS\<close> has, the call returns a
  dictionary with the keys of the common catalogue, in which every domain has
  its common questions followed by the extra questions that the sector lists
  for its id, in their order; an extension for an id that is not a common domain
  raises nothing and changes no domain; the question count of a domain is its
  base count plus the number of its extra questions; and all objects of the
  result, the appended questions included, are new copies.
\<close>

theorem build_domains_for_sector_extends:
  assumes "wf_state st"
    and "read_domains (heap st) (DOMAINS_COMMON st) = Some common"
    and "map_of (SECTORS st) sid = Some sector"
  shows "\<exists>ds st' result.
           build_domains_for_sector st (Some sid) = Some (Inr ds, st')
         \<and> map fst ds = map fst (DOMAINS_COMMON st)
         \<and> read_domains (heap st') ds = Some result
         \<and> result = map (with_extra (heap st) (extra_questions sector)) common
         \<and> map (\<lambda>(k, v). length (questions v)) result
             = map (\<lambda>(k, v). length (questions v)
                              + length (sector_extra (heap st) (extra_questions sector) k)) common
         \<and> list_all (fresh_domain (length (heap st)) (heap st')) (map snd ds)"
proof -
  from build_known[OF assms]
  obtain ds st' where b: "build_domains_for_sector st (Some sid) = Some (Inr ds, st')"
    and k: "map fst ds = map fst (DOMAINS_COMMON st)"
    and r: "read_domains (heap st') ds
               = Some (map (with_extra (heap st) (extra_questions sector)) common)"
    and f: "list_all (fresh_domain (length (heap st)) (heap st')) (map snd ds)"
    by blast
  have l: "map (\<lambda>(k, v). length (questions v))
             (map (with_extra (heap st) (extra_questions sector)) common)
           = map (\<lambda>(k, v). length (questions v)
                              + length (sector_extra (heap st) (extra_questions sector) k)) common"
    by (induction common) (auto simp: with_extra_def)
  from b k r l f show ?thesis by blast
qed

theorem build_domains_for_sector_extends_witness:
  "wf_state example_state
   \<and> (\<exists>ds st'. build_domains_for_sector example_state (Some ''tech'') = Some (Inr ds, st')
         \<and> read_domains (heap st') ds
             = Some [(''si'', example_domain ''si''
                        [example_question ''si_1'' ''stars'', example_question ''si_701'' ''stars''])])"
  using build_domains_for_sector_extends[OF example_wf example_common example_tech]
    example_wf example_extra
  by auto

text \<open>
  Claim C2. From a loaded state, for every sector id (absent, known or
  unknown), a call of \<^verbatim>\<open>build_domains_for_sector\<close> followed by a second call
  with the same sector id leaves the shared catalogues unchanged: every object
  that existed before keeps its address and content (the old heap is a prefix of
  the new one), the two module-level dictionaries are the same, and the common
  domains and the sector lists read back to the same values, after the first
  call and after the second. The two calls give value-equal results (the same
  exception, or dictionaries that read back equal), and the second call does not
  disturb the result of the first.
\<close>

theorem build_domains_for_sector_frame:
  assumes "wf_state st"
  shows "\<exists>r1 st1 r2 st2.
           build_domains_for_sector st sector_id = Some (r1, st1)
         \<and> build_domains_for_sector st1 sector_id = Some (r2, st2)
         \<and> prefix (heap st) (heap st1) \<and> prefix (heap st1) (heap st2)
         \<and> DOMAINS_COMMON st1 = DOMAINS_COMMON st \<and> SECTORS st1 = SECTORS st
         \<and> DOMAINS_COMMON st2 = DOMAINS_COMMON st \<and> SECTORS st2 = SECTORS st
         \<and> read_domains (heap st1) (DOMAINS_COMMON st) = read_domains (heap st) (DOMAINS_COMMON st)
         \<and> read_domains (heap st2) (DOMAINS_COMMON st) = read_domains (heap st) (DOMAINS_COMMON st)
         \<and> read_sectors st1 = read_sectors st \<and> read_sectors st2 = read_sectors st
         \<and> read_result (heap st1) r1 \<noteq> None
         \<and> read_result (heap st2) r2 = read_result (heap st1) r1
         \<and> read_result (heap st2) r1 = read_result (heap st1) r1"
proof -
  from assms obtain common where c: "read_domains (heap st) (DOMAINS_COMMON st) = Some common"
    by (auto simp: wf_state_def)
  from build_total_heap[OF assms c, of sector_id]
  obtain r1 h1 where b1: "build_domains_for_sector st sector_id = Some (r1, st\<lparr>heap := h1\<rparr>)"
    and p1: "prefix (heap st) h1"
    and rr1: "read_result h1 r1 = Some (build_value st common sector_id)"
    by blast
  let ?st1 = "st\<lparr>heap := h1\<rparr>"
  have wf1: "wf_state ?st1" by (rule wf_state_prefix[OF assms p1])
  have c1: "read_domains (heap ?st1) (DOMAINS_COMMON ?st1) = Some common"
    using read_domains_prefix[OF p1 c] by simp
  from build_total_heap[OF wf1 c1, of sector_id]
  obtain r2 h2 where b2: "build_domains_for_sector ?st1 sector_id = Some (r2, ?st1\<lparr>heap := h2\<rparr>)"
    and p2: "prefix (heap ?st1) h2"
    and rr2: "read_result h2 r2 = Some (build_value ?st1 common sector_id)"
    by blast
  let ?st2 = "?st1\<lparr>heap := h2\<rparr>"
  have p12: "prefix h1 h2" using p2 by simp
  have p02: "prefix (heap st) h2" using p1 p12 by (rule prefix_order.trans)
  have v: "build_value ?st1 common sector_id = build_value st common sector_id"
    by (rule build_value_prefix[OF assms p1])
  have c2: "read_domains h2 (DOMAINS_COMMON st) = Some common"
    by (rule read_domains_prefix[OF p02 c])
  have s1: "read_sectors ?st1 = read_sectors st"
    by (rule read_sectors_prefix[OF assms p1])
  have s2: "read_sectors ?st2 = read_sectors st"
    using read_sectors_prefix[OF assms p02] by simp
  have k: "read_result h2 r1 = read_result h1 r1"
    using read_result_prefix[OF p12 rr1] rr1 by simp
  show ?thesis
    apply (rule exI[of _ r1], rule exI[of _ ?st1], rule exI[of _ r2], rule exI[of _ ?st2])
    using b1 b2 p1 p12 c c1 c2 s1 s2 rr1 rr2 v k by simp
qed

theorem build_domains_for_sector_frame_witness:
  "wf_state example_state
   \<and> (\<exists>r1 st1 r2 st2.
           build_domains_for_sector example_state (Some ''tech'') = Some (r1, st1)
         \<and> build_domains_for_sector st1 (Some ''tech'') = Some (r2, st2)
         \<and> prefix (heap example_state) (heap st1)
         \<and> read_domains (heap st2) (DOMAINS_COMMON example_state)
             = read_domains (heap example_state) (DOMAINS_COMMON example_state)
         \<and> read_sectors st2 = read_sectors example_state
         \<and> read_result (heap st2) r2 = read_result (heap st1) r1)"
  using build_domains_for_sector_frame[OF example_wf, of "Some ''tech''"] example_wf
  by blast

end
